theory Spec2Isabelle
  imports Main "HOL-Library.Sublist"
begin

section \<open>Python values and string helpers\<close>

text \<open>
  The pipeline of \<^verbatim>\<open>src/main.py\<close> moves JSON documents around as plain Python
  values. \<open>pyval\<close> is the image of \<^verbatim>\<open>json.loads\<close>: \<^verbatim>\<open>None\<close>, booleans, integers,
  floats, strings, lists and dictionaries with string keys. A dictionary keeps its
  insertion order, so it is an association list. Strings are character lists; a
  \<open>char\<close> stands for one code point (the model covers code points below 256).
\<close>

datatype pyfloat = Finite int int | Infinite bool | NaN

datatype pyval =
    PyNone
  | PyBool bool
  | PyInt int
  | PyFloat pyfloat
  | PyStr string
  | PyList "pyval list"
  | PyDict "(string \<times> pyval) list"

datatype py_error =
    FileNotFoundError
  | JSONDecodeError
  | ValueError string
  | TypeError
  | KeyError
  | AttributeError

text \<open>Truth value testing, as \<^verbatim>\<open>if x:\<close> and \<^verbatim>\<open>not x\<close> do it.\<close>

fun py_truthy :: "pyval \<Rightarrow> bool" where
  "py_truthy PyNone = False"
| "py_truthy (PyBool b) = b"
| "py_truthy (PyInt i) = (i \<noteq> 0)"
| "py_truthy (PyFloat (Finite m e)) = (m \<noteq> 0)"
| "py_truthy (PyFloat (Infinite sg)) = True"
| "py_truthy (PyFloat NaN) = True"
| "py_truthy (PyStr s) = (s \<noteq> [])"
| "py_truthy (PyList xs) = (xs \<noteq> [])"
| "py_truthy (PyDict kvs) = (kvs \<noteq> [])"

text \<open>\<^verbatim>\<open>sep.join(xs)\<close>\<close>

fun py_join :: "string \<Rightarrow> string list \<Rightarrow> string" where
  "py_join sep [] = []"
| "py_join sep [x] = x"
| "py_join sep (x # y # ys) = x @ sep @ py_join sep (y # ys)"

text \<open>\<^verbatim>\<open>s.removeprefix(p)\<close> and \<^verbatim>\<open>s.removesuffix(p)\<close>\<close>

definition removeprefix :: "string \<Rightarrow> string \<Rightarrow> string" where
  "removeprefix p s = (if prefix p s then drop (length p) s else s)"

definition removesuffix :: "string \<Rightarrow> string \<Rightarrow> string" where
  "removesuffix p s = (if p \<noteq> [] \<and> suffix p s then take (length s - length p) s else s)"

text \<open>\<^verbatim>\<open>field in config\<close> for a string \<open>field\<close>: key membership in a dictionary, element
  membership in a list, substring test in a string, \<^verbatim>\<open>TypeError\<close> otherwise.\<close>

fun py_contains :: "pyval \<Rightarrow> string \<Rightarrow> py_error + bool" where
  "py_contains (PyDict kvs) k = Inr (k \<in> fst ` set kvs)"
| "py_contains (PyList xs) k = Inr (PyStr k \<in> set xs)"
| "py_contains (PyStr s) k = Inr (sublist k s)"
| "py_contains v k = Inl TypeError"

text \<open>\<^verbatim>\<open>config[field]\<close> for a string \<open>field\<close>.\<close>

fun py_getitem :: "pyval \<Rightarrow> string \<Rightarrow> py_error + pyval" where
  "py_getitem (PyDict kvs) k = (case map_of kvs k of None \<Rightarrow> Inl KeyError | Some v \<Rightarrow> Inr v)"
| "py_getitem v k = Inl TypeError"

text \<open>\<^verbatim>\<open>config.get(field)\<close>: \<^verbatim>\<open>None\<close> for an absent key; only dictionaries have the method.\<close>

fun py_get :: "pyval \<Rightarrow> string \<Rightarrow> py_error + pyval" where
  "py_get (PyDict kvs) k = (case map_of kvs k of None \<Rightarrow> Inr PyNone | Some v \<Rightarrow> Inr v)"
| "py_get v k = Inl AttributeError"

section \<open>Configuration loader\<close>

text \<open>
  \<^verbatim>\<open>load_config\<close> reads \<^verbatim>\<open>config.json\<close>. The file system is the argument \<open>file\<close>
  (\<open>None\<close> when \<^verbatim>\<open>os.path.exists\<close> is false, the file's text otherwise) and
  \<^verbatim>\<open>json.load\<close> is the parameter \<open>loads\<close> (\<open>None\<close> for \<^verbatim>\<open>JSONDecodeError\<close>).
  Log lines are not part of the model.
\<close>

definition required_fields :: "string list" where
  "required_fields = [''api_key'', ''api_base'', ''model_name'']"

text \<open>\<^verbatim>\<open>field not in config or not config[field]\<close>, with Python's short-circuit \<^verbatim>\<open>or\<close>.\<close>

definition field_missing :: "pyval \<Rightarrow> string \<Rightarrow> py_error + bool" where
  "field_missing config field =
     (case py_contains config field of
        Inl e \<Rightarrow> Inl e
      | Inr False \<Rightarrow> Inr True
      | Inr True \<Rightarrow> (case py_getitem config field of
                      Inl e \<Rightarrow> Inl e
                    | Inr v \<Rightarrow> Inr (\<not> py_truthy v)))"

text \<open>The list comprehension over \<^verbatim>\<open>required_fields\<close>; the first exception ends it.\<close>

fun missing_fields :: "pyval \<Rightarrow> string list \<Rightarrow> py_error + string list" where
  "missing_fields config [] = Inr []"
| "missing_fields config (field # fields) =
     (case field_missing config field of
        Inl e \<Rightarrow> Inl e
      | Inr b \<Rightarrow> (case missing_fields config fields of
                    Inl e \<Rightarrow> Inl e
                  | Inr ms \<Rightarrow> Inr (if b then field # ms else ms)))"

definition missing_message :: "string list \<Rightarrow> string" where
  "missing_message ms = ''Missing required configuration fields: '' @ py_join '', '' ms"

definition load_config ::
  "(string \<Rightarrow> pyval option) \<Rightarrow> string option \<Rightarrow> py_error + (pyval \<times> pyval \<times> pyval)" where
  "load_config loads file =
     (case file of
        None \<Rightarrow> Inl FileNotFoundError
      | Some text \<Rightarrow>
          (case loads text of
             None \<Rightarrow> Inl JSONDecodeError
           | Some config \<Rightarrow>
               (case missing_fields config required_fields of
                  Inl e \<Rightarrow> Inl e
                | Inr ms \<Rightarrow>
                    if ms \<noteq> [] then Inl (ValueError (missing_message ms))
                    else (case py_get config ''api_key'' of
                            Inl e \<Rightarrow> Inl e
                          | Inr api_key \<Rightarrow>
                              (case py_get config ''api_base'' of
                                 Inl e \<Rightarrow> Inl e
                               | Inr api_base \<Rightarrow>
                                   (case py_get config ''model_name'' of
                                      Inl e \<Rightarrow> Inl e
                                    | Inr model_name \<Rightarrow> Inr (api_key, api_base, model_name)))))))"

text \<open>
  The reading of "absent or has an empty value" for a settings object: the key has no
  entry, or its value is false under Python's truth value testing (for a string value,
  the empty string).
\<close>

definition absent_or_empty :: "(string \<times> pyval) list \<Rightarrow> string \<Rightarrow> bool" where
  "absent_or_empty kvs field =
     (case map_of kvs field of None \<Rightarrow> True | Some v \<Rightarrow> \<not> py_truthy v)"

section \<open>Query generator: the parsing step\<close>

text \<open>
  \<^verbatim>\<open>json.loads(response_text.removeprefix("```json").removesuffix("```"))\<close>
\<close>

definition fence_open :: string where
  "fence_open = ''```json''"

definition fence_close :: string where
  "fence_close = ''```''"

definition strip_fences :: "string \<Rightarrow> string" where
  "strip_fences response_text = removesuffix fence_close (removeprefix fence_open response_text)"

definition parse_queries :: "(string \<Rightarrow> pyval option) \<Rightarrow> string \<Rightarrow> pyval option" where
  "parse_queries loads response_text = loads (strip_fences response_text)"

text \<open>
  A JSON text that denotes an array is, by the JSON grammar, optional whitespace, an
  opening bracket, the elements, a closing bracket and optional whitespace. The
  predicate keeps the two ends of that shape, which is all the fence stripping looks at.
\<close>

definition json_ws :: "char \<Rightarrow> bool" where
  "json_ws c = (c = CHR '' '' \<or> c = CHR 0x09 \<or> c = CHR 0x0A \<or> c = CHR 0x0D)"

definition json_array_text :: "string \<Rightarrow> bool" where
  "json_array_text r =
     ((case dropWhile json_ws r of [] \<Rightarrow> False | c # cs \<Rightarrow> c = CHR ''['')
      \<and> (case dropWhile json_ws (rev r) of [] \<Rightarrow> False | c # cs \<Rightarrow> c = CHR '']''))"

section \<open>Parsed HTML\<close>

text \<open>
  \<^verbatim>\<open>BeautifulSoup(response.text, "html.parser")\<close> is a library call; the model starts
  from the tree it builds. An element has a tag name, its attributes and its children;
  the soup is the list of top-level nodes. Comments are strings that \<^verbatim>\<open>get_text\<close> skips.
\<close>

datatype node =
    Element string "(string \<times> string) list" "node list"
  | Text string
  | Comment string

fun tag_name :: "node \<Rightarrow> string option" where
  "tag_name (Element t as cs) = Some t"
| "tag_name (Text s) = None"
| "tag_name (Comment s) = None"

fun tag_attr :: "node \<Rightarrow> string \<Rightarrow> string option" where
  "tag_attr (Element t as cs) k = map_of as k"
| "tag_attr (Text s) k = None"
| "tag_attr (Comment s) k = None"

text \<open>\<^verbatim>\<open>find_all\<close>: the matching elements among all descendants, in document order.\<close>

fun find_all_node :: "(node \<Rightarrow> bool) \<Rightarrow> node \<Rightarrow> node list" where
  "find_all_node P (Element t as cs) =
     (if P (Element t as cs) then [Element t as cs] else []) @ concat (map (find_all_node P) cs)"
| "find_all_node P (Text s) = []"
| "find_all_node P (Comment s) = []"

definition find_all :: "(node \<Rightarrow> bool) \<Rightarrow> node list \<Rightarrow> node list" where
  "find_all P soup = concat (map (find_all_node P) soup)"

definition named :: "string list \<Rightarrow> node \<Rightarrow> bool" where
  "named names n = (case tag_name n of None \<Rightarrow> False | Some t \<Rightarrow> t \<in> set names)"

text \<open>
  \<^verbatim>\<open>for tag in soup([...]): tag.decompose()\<close>: every element with one of the names is
  taken out of the tree together with its subtree. The model gives the tree that is left.
\<close>

fun decompose :: "string list \<Rightarrow> node \<Rightarrow> node list" where
  "decompose names (Element t as cs) =
     (if t \<in> set names then [] else [Element t as (concat (map (decompose names) cs))])"
| "decompose names (Text s) = [Text s]"
| "decompose names (Comment s) = [Comment s]"

definition decompose_all :: "string list \<Rightarrow> node list \<Rightarrow> node list" where
  "decompose_all names soup = concat (map (decompose names) soup)"

text \<open>\<^verbatim>\<open>str.strip()\<close>: whitespace is what \<^verbatim>\<open>str.isspace\<close> accepts (code points below 256).\<close>

definition py_isspace :: "char \<Rightarrow> bool" where
  "py_isspace c =
     (c \<in> set [CHR 0x09, CHR 0x0A, CHR 0x0B, CHR 0x0C, CHR 0x0D, CHR 0x1C, CHR 0x1D,
               CHR 0x1E, CHR 0x1F, CHR 0x20, CHR 0x85, CHR 0xA0])"

definition py_strip :: "string \<Rightarrow> string" where
  "py_strip s = rev (dropWhile py_isspace (rev (dropWhile py_isspace s)))"

text \<open>\<^verbatim>\<open>tag.get_text(strip=True)\<close>: the text strings below the tag, each stripped, the
  empty ones dropped, concatenated.\<close>

fun all_strings :: "node \<Rightarrow> string list" where
  "all_strings (Element t as cs) = concat (map all_strings cs)"
| "all_strings (Text s) = [s]"
| "all_strings (Comment s) = []"

definition get_text_strip :: "node \<Rightarrow> string" where
  "get_text_strip n = concat (filter (\<lambda>t. t \<noteq> []) (map py_strip (all_strings n)))"

section \<open>Link harvester\<close>

definition listings_marker :: string where
  "listings_marker = ''/phds/''"

definition base_origin :: string where
  "base_origin = ''https://www.findaphd.com''"

text \<open>\<^verbatim>\<open>soup.find_all('a', href=True)\<close> and the \<^verbatim>\<open>a['href']\<close> of each hit.\<close>

definition anchor_hrefs :: "node list \<Rightarrow> string list" where
  "anchor_hrefs soup =
     List.map_filter (\<lambda>a. tag_attr a ''href'')
       (find_all (\<lambda>a. tag_name a = Some ''a'' \<and> tag_attr a ''href'' \<noteq> None) soup)"

definition full_url :: "string \<Rightarrow> string" where
  "full_url href = (if prefix ''http'' href then href else base_origin @ href)"

text \<open>The loop over the anchors; \<open>links\<close> is the list built so far.\<close>

fun links_loop :: "string list \<Rightarrow> string list \<Rightarrow> string list" where
  "links_loop [] links = links"
| "links_loop (href # hrefs) links =
     (if sublist listings_marker href
      then (if full_url href \<notin> set links
            then links_loop hrefs (links @ [full_url href])
            else links_loop hrefs links)
      else links_loop hrefs links)"

definition harvest_links :: "node list \<Rightarrow> string list" where
  "harvest_links soup = links_loop (anchor_hrefs soup) []"

text \<open>Dropping exact duplicates in first-seen order: an element is kept when it is not
  among those met before it; \<open>seen\<close> holds the elements met so far.\<close>

fun first_seen :: "'a list \<Rightarrow> 'a list \<Rightarrow> 'a list" where
  "first_seen seen [] = []"
| "first_seen seen (x # xs) =
     (if x \<in> set seen then first_seen seen xs else x # first_seen (x # seen) xs)"

text \<open>
  The wording "relative hrefs prefixed by the site's base origin", read with the usual
  notion of a relative reference: an href is absolute when it starts with a scheme (a
  letter, then letters, digits, \<open>+\<close>, \<open>-\<close> or \<open>.\<close>) and a colon, and relative
  otherwise. \<open>links_as_worded\<close> is the harvest under that reading; it is compared with
  \<open>harvest_links\<close> below.
\<close>

definition is_alpha :: "char \<Rightarrow> bool" where
  "is_alpha c = (c \<in> set ''abcdefghijklmnopqrstuvwxyzABCDEFGHIJKLMNOPQRSTUVWXYZ'')"

definition scheme_char :: "char \<Rightarrow> bool" where
  "scheme_char c = (is_alpha c \<or> c \<in> set ''0123456789+-.'')"

definition has_scheme :: "string \<Rightarrow> bool" where
  "has_scheme href =
     (case href of
        [] \<Rightarrow> False
      | c # cs \<Rightarrow>
          is_alpha c \<and>
          (case dropWhile scheme_char cs of [] \<Rightarrow> False | d # ds \<Rightarrow> d = CHR '':''))"

definition relative_href :: "string \<Rightarrow> bool" where
  "relative_href href = (\<not> has_scheme href)"

definition links_as_worded :: "node list \<Rightarrow> string list" where
  "links_as_worded soup =
     first_seen []
       (map (\<lambda>href. if relative_href href then base_origin @ href else href)
         (filter (sublist listings_marker) (anchor_hrefs soup)))"

section \<open>Text extractor\<close>

definition noise_tags :: "string list" where
  "noise_tags = [''script'', ''style'', ''nav'', ''footer'', ''header'']"

definition content_tags :: "string list" where
  "content_tags = [''p'', ''h1'', ''h2'', ''h3'', ''h4'', ''li'']"

text \<open>The loop over the content elements; \<open>text_elements\<close> is the list built so far.\<close>

fun text_loop :: "node list \<Rightarrow> string list \<Rightarrow> string list" where
  "text_loop [] text_elements = text_elements"
| "text_loop (tag # tags) text_elements =
     (let text = get_text_strip tag
      in if text \<noteq> [] \<and> length text > 10
         then text_loop tags (text_elements @ [text])
         else text_loop tags text_elements)"

definition clean_text :: "node list \<Rightarrow> string" where
  "clean_text soup =
     py_join [CHR 0x0A]
       (text_loop (find_all (named content_tags) (decompose_all noise_tags soup)) [])"

section \<open>The outside world\<close>

text \<open>
  The language model, the web and the two parsers are parameters. A model completion
  and an HTTP request may answer differently each time, so they read and change an
  abstract world \<open>'w\<close>. \<^verbatim>\<open>requests.get\<close> followed by \<^verbatim>\<open>raise_for_status\<close> gives the body
  of the page, or \<open>None\<close> for a \<^verbatim>\<open>RequestException\<close>. A completion is taken to return a
  text. The state keeps, next to the world, the trace of what the run did: the model
  requests, the HTTP requests, the records appended to \<^verbatim>\<open>all_projects\<close> and the CSV file
  written. Log lines, \<^verbatim>\<open>print\<close> and \<^verbatim>\<open>time.sleep\<close> are left out.
\<close>

datatype prompt = QueryPrompt string | ExtractPrompt string

datatype event =
    ChatRequest prompt
  | HttpGet pyval
  | Accepted string
  | CsvWrite string "string list" "pyval list"

record 'w state =
  world :: 'w
  trace :: "event list"

record 'w env =
  chat_create :: "prompt \<Rightarrow> 'w \<Rightarrow> string \<times> 'w"
  requests_get :: "pyval \<Rightarrow> 'w \<Rightarrow> string option \<times> 'w"
  html_parser :: "string \<Rightarrow> node list"
  json_loads :: "string \<Rightarrow> pyval option"

definition chat_completion :: "'w env \<Rightarrow> prompt \<Rightarrow> 'w state \<Rightarrow> string \<times> 'w state" where
  "chat_completion env p s =
     (case chat_create env p (world s) of
        (response_text, w) \<Rightarrow> (response_text, \<lparr>world = w, trace = trace s @ [ChatRequest p]\<rparr>))"

definition http_fetch :: "'w env \<Rightarrow> pyval \<Rightarrow> 'w state \<Rightarrow> string option \<times> 'w state" where
  "http_fetch env url s =
     (case requests_get env url (world s) of
        (response, w) \<Rightarrow> (response, \<lparr>world = w, trace = trace s @ [HttpGet url]\<rparr>))"

definition get_project_links :: "'w env \<Rightarrow> pyval \<Rightarrow> 'w state \<Rightarrow> string list \<times> 'w state" where
  "get_project_links env search_url s =
     (case http_fetch env search_url s of
        (None, s1) \<Rightarrow> ([], s1)
      | (Some body, s1) \<Rightarrow> (harvest_links (html_parser env body), s1))"

definition get_clean_text :: "'w env \<Rightarrow> string \<Rightarrow> 'w state \<Rightarrow> string \<times> 'w state" where
  "get_clean_text env project_url s =
     (case http_fetch env (PyStr project_url) s of
        (None, s1) \<Rightarrow> ([], s1)
      | (Some body, s1) \<Rightarrow> (clean_text (html_parser env body), s1))"

section \<open>Query generator and field extractor\<close>

fun py_len :: "pyval \<Rightarrow> py_error + nat" where
  "py_len (PyStr s) = Inr (length s)"
| "py_len (PyList xs) = Inr (length xs)"
| "py_len (PyDict kvs) = Inr (length kvs)"
| "py_len v = Inl TypeError"

text \<open>Iteration: the elements of a list, the keys of a dictionary, the characters of a string.\<close>

fun py_iter :: "pyval \<Rightarrow> py_error + pyval list" where
  "py_iter (PyStr s) = Inr (map (\<lambda>c. PyStr [c]) s)"
| "py_iter (PyList xs) = Inr xs"
| "py_iter (PyDict kvs) = Inr (map (\<lambda>kv. PyStr (fst kv)) kvs)"
| "py_iter v = Inl TypeError"

text \<open>\<^verbatim>\<open>generate_search_queries\<close>: one completion, the parsing step, and \<^verbatim>\<open>len(queries)\<close>
  for the log line, which raises on a value without a length.\<close>

definition generate_search_queries ::
  "'w env \<Rightarrow> string \<Rightarrow> 'w state \<Rightarrow> (py_error + pyval) \<times> 'w state" where
  "generate_search_queries env user_prompt s =
     (case chat_completion env (QueryPrompt user_prompt) s of
        (response_text, s1) \<Rightarrow>
          (case parse_queries (json_loads env) response_text of
             None \<Rightarrow> (Inl JSONDecodeError, s1)
           | Some queries \<Rightarrow>
               (case py_len queries of
                  Inl e \<Rightarrow> (Inl e, s1)
                | Inr n \<Rightarrow> (Inr queries, s1))))"

text \<open>\<^verbatim>\<open>extract_project_info\<close>: Python's \<^verbatim>\<open>None\<close> is both the "no result" value and what
  the JSON text \<^verbatim>\<open>null\<close> parses to.\<close>

definition extract_project_info ::
  "'w env \<Rightarrow> string \<Rightarrow> string \<Rightarrow> 'w state \<Rightarrow> pyval \<times> 'w state" where
  "extract_project_info env text_blob project_url s =
     (if text_blob = [] \<or> length text_blob < 50 then (PyNone, s)
      else (case chat_completion env (ExtractPrompt (take 4000 text_blob)) s of
              (response_text, s1) \<Rightarrow>
                (case json_loads env response_text of
                   None \<Rightarrow> (PyNone, s1)
                 | Some project_info \<Rightarrow> (project_info, s1))))"

section \<open>Pipeline orchestrator\<close>

text \<open>\<^verbatim>\<open>d[k] = v\<close> on an insertion-ordered dictionary.\<close>

fun dict_update :: "string \<Rightarrow> pyval \<Rightarrow> (string \<times> pyval) list \<Rightarrow> (string \<times> pyval) list" where
  "dict_update k v [] = [(k, v)]"
| "dict_update k v (kv # kvs) = (if fst kv = k then (k, v) # kvs else kv # dict_update k v kvs)"

fun py_setitem :: "pyval \<Rightarrow> string \<Rightarrow> pyval \<Rightarrow> py_error + pyval" where
  "py_setitem (PyDict kvs) k v = Inr (PyDict (dict_update k v kvs))"
| "py_setitem d k v = Inl TypeError"

text \<open>\<^verbatim>\<open>max_projects and len(all_projects) >= max_projects\<close>\<close>

definition cap_reached :: "int option \<Rightarrow> pyval list \<Rightarrow> bool" where
  "cap_reached max_projects all_projects =
     (case max_projects of
        None \<Rightarrow> False
      | Some n \<Rightarrow> n \<noteq> 0 \<and> n \<le> int (length all_projects))"

text \<open>The body of the inner loop below the cap check: fetch, extract, accept or skip.\<close>

definition link_step ::
  "'w env \<Rightarrow> string \<Rightarrow> pyval list \<Rightarrow> 'w state \<Rightarrow> (py_error + pyval list) \<times> 'w state" where
  "link_step env url all_projects s =
     (case get_clean_text env url s of
        (text_blob, s1) \<Rightarrow>
          if text_blob = [] then (Inr all_projects, s1)
          else (case extract_project_info env text_blob url s1 of
                  (project_info, s2) \<Rightarrow>
                    if py_truthy project_info
                    then (case py_setitem project_info ''url'' (PyStr url) of
                            Inl e \<Rightarrow> (Inl e, s2)
                          | Inr record \<Rightarrow>
                              (Inr (all_projects @ [record]),
                               s2\<lparr>trace := trace s2 @ [Accepted url]\<rparr>))
                    else (Inr all_projects, s2)))"

fun process_links ::
  "'w env \<Rightarrow> int option \<Rightarrow> string list \<Rightarrow> pyval list \<Rightarrow> 'w state
     \<Rightarrow> (py_error + pyval list) \<times> 'w state" where
  "process_links env max_projects [] all_projects s = (Inr all_projects, s)"
| "process_links env max_projects (url # urls) all_projects s =
     (if cap_reached max_projects all_projects then (Inr all_projects, s)
      else (case link_step env url all_projects s of
              (Inl e, s1) \<Rightarrow> (Inl e, s1)
            | (Inr projects, s1) \<Rightarrow> process_links env max_projects urls projects s1))"

fun process_queries ::
  "'w env \<Rightarrow> int option \<Rightarrow> pyval list \<Rightarrow> pyval list \<Rightarrow> 'w state
     \<Rightarrow> (py_error + pyval list) \<times> 'w state" where
  "process_queries env max_projects [] all_projects s = (Inr all_projects, s)"
| "process_queries env max_projects (query_url # queries) all_projects s =
     (case get_project_links env query_url s of
        (project_links, s1) \<Rightarrow>
          if project_links = [] then process_queries env max_projects queries all_projects s1
          else (case process_links env max_projects project_links all_projects s1 of
                  (Inl e, s2) \<Rightarrow> (Inl e, s2)
                | (Inr projects, s2) \<Rightarrow>
                    if cap_reached max_projects projects then (Inr projects, s2)
                    else process_queries env max_projects queries projects s2))"

text \<open>
  \<^verbatim>\<open>pd.DataFrame(all_projects)\<close> on a list of dictionaries: the columns are the keys of
  all the dictionaries, each once, in the order they are first met.
\<close>

fun dict_keys :: "pyval \<Rightarrow> string list" where
  "dict_keys (PyDict kvs) = map fst kvs"
| "dict_keys v = []"

definition dataframe_columns :: "pyval list \<Rightarrow> string list" where
  "dataframe_columns records = first_seen [] (concat (map dict_keys records))"

definition csv_file :: string where
  "csv_file = ''phd_listings.csv''"

text \<open>
  \<^verbatim>\<open>main_agent\<close>. The result is \<open>Inl e\<close> when the exception \<open>e\<close> leaves the function,
  \<open>Inr None\<close> for the bare \<^verbatim>\<open>return\<close> and \<open>Inr (Some all_projects)\<close> at the end.
\<close>

definition main_agent ::
  "'w env \<Rightarrow> string \<Rightarrow> int option \<Rightarrow> 'w state
     \<Rightarrow> (py_error + pyval list option) \<times> 'w state" where
  "main_agent env user_prompt max_projects s =
     (case generate_search_queries env user_prompt s of
        (Inl JSONDecodeError, s1) \<Rightarrow> (Inr None, s1)
      | (Inl e, s1) \<Rightarrow> (Inl e, s1)
      | (Inr search_queries, s1) \<Rightarrow>
          (case py_iter search_queries of
             Inl e \<Rightarrow> (Inl e, s1)
           | Inr queries \<Rightarrow>
               (case process_queries env max_projects queries [] s1 of
                  (Inl e, s2) \<Rightarrow> (Inl e, s2)
                | (Inr all_projects, s2) \<Rightarrow>
                    if all_projects \<noteq> []
                    then (Inr (Some all_projects),
                          s2\<lparr>trace := trace s2 @
                               [CsvWrite csv_file (dataframe_columns all_projects) all_projects]\<rparr>)
                    else (Inr (Some all_projects), s2))))"

section \<open>Reading a trace\<close>

fun is_request :: "event \<Rightarrow> bool" where
  "is_request (ChatRequest p) = True"
| "is_request (HttpGet u) = True"
| "is_request e = False"

fun is_chat :: "event \<Rightarrow> bool" where
  "is_chat (ChatRequest p) = True"
| "is_chat e = False"

fun is_accept :: "event \<Rightarrow> bool" where
  "is_accept (Accepted u) = True"
| "is_accept e = False"

fun is_csv :: "event \<Rightarrow> bool" where
  "is_csv (CsvWrite f cols rows) = True"
| "is_csv e = False"

text \<open>
  \<open>quiet_after k evs\<close>: in \<open>evs\<close>, once \<open>k\<close> records have been accepted, no request
  (model or HTTP) follows.
\<close>

fun quiet_after :: "nat \<Rightarrow> event list \<Rightarrow> bool" where
  "quiet_after k [] = True"
| "quiet_after k (e # es) =
     (if k = 0 then \<not> is_request e \<and> quiet_after 0 es
      else quiet_after (if is_accept e then k - 1 else k) es)"

fun is_dict :: "pyval \<Rightarrow> bool" where
  "is_dict (PyDict kvs) = True"
| "is_dict v = False"

section \<open>A small world to run the pipeline in\<close>

text \<open>
  A concrete environment for evaluating the definitions. The model echoes its prompt,
  the web serves the URL as the page body, a search page \<open>q\<close>\<open>c\<^sub>1\<dots>c\<^sub>n\<close> links to the
  projects \<open>/phds/c\<^sub>i\<close>, and the answer of the field extractor is decided by the last
  character of the page text: an object for \<open>A\<close> and \<open>B\<close>, a non-empty array for \<open>L\<close>,
  an empty array for \<open>E\<close>, no JSON otherwise.
\<close>

definition demo_chat :: "prompt \<Rightarrow> unit \<Rightarrow> string \<times> unit" where
  "demo_chat p w = (case p of QueryPrompt u \<Rightarrow> (u, w) | ExtractPrompt t \<Rightarrow> (t, w))"

definition demo_get :: "pyval \<Rightarrow> unit \<Rightarrow> string option \<times> unit" where
  "demo_get url w = (case url of PyStr u \<Rightarrow> (Some u, w) | _ \<Rightarrow> (None, w))"

definition demo_page :: "string \<Rightarrow> node list" where
  "demo_page body =
     [Element ''script'' [] [Text ''var tracking = true;''],
      Element ''div'' [(''class'', ''main'')]
        [Element ''h1'' [] [Text ''PhD''], Element ''p'' [] [Text (body @ body)]],
      Element ''footer'' [] [Element ''p'' [] [Text ''All rights reserved.'']]]"

text \<open>
  Three fixed pages: a search page with relative and absolute project links, links
  elsewhere, repeated links, an anchor without href and a non-anchor with one; a search
  page with an \<open>ftp\<close> link and a relative link that starts with \<open>http\<close>; and a project
  page with every kind of content element, short fragments, nested markup, a comment
  and noise elements that contain content elements.
\<close>

definition demo_search_page :: "node list" where
  "demo_search_page =
     [Element ''div'' []
        [Element ''a'' [(''href'', ''/phds/project/a'')] [Text ''Project a''],
         Element ''a'' [(''href'', ''/about'')] [Text ''About''],
         Element ''a'' [(''class'', ''plain'')] [Text ''no target'']],
      Element ''a'' [(''href'', ''https://www.findaphd.com/phds/project/b'')] [],
      Element ''a'' [(''href'', ''/phds/project/a'')] [],
      Element ''a'' [(''href'', ''https://www.findaphd.com/phds/project/a'')] [],
      Element ''link'' [(''href'', ''/phds/style.css'')] [],
      Element ''a'' [(''href'', ''https://other.example/jobs'')] [],
      Element ''p'' [] [Element ''a'' [(''href'', ''/phds/project/c'')] []]]"

definition demo_mixed_page :: "node list" where
  "demo_mixed_page =
     [Element ''a'' [(''href'', ''ftp://files.example/phds/x'')] [],
      Element ''a'' [(''href'', ''httpz/phds/4'')] []]"

definition demo_rich_page :: "node list" where
  "demo_rich_page =
     [Element ''header'' [] [Element ''h1'' [] [Text ''Site header title text'']],
      Element ''h1'' [] [Text ''  PhD in Machine Learning  ''],
      Element ''div'' []
        [Element ''p'' [] [Text ''Too short''],
         Element ''h2'' [] [Text ''About the project''],
         Comment ''hidden note for editors'',
         Element ''p'' []
           [Text ''This project studies '', Element ''b'' [] [Text ''large language''],
            Text '' models.''],
         Element ''h3'' [] [Text ''Entry requirements'']],
      Element ''ul'' []
        [Element ''li'' [] [Text ''Funding: fully funded''], Element ''li'' [] [Text ''UK only'']],
      Element ''h5'' [] [Text ''A level five heading here''],
      Element ''span'' [] [Text ''Loose text outside the content tags''],
      Element ''nav'' [] [Element ''li'' [] [Text ''Navigation list entry'']],
      Element ''script'' [] [Text ''var tracking = true;''],
      Element ''h4'' [] [Text ''Contact the supervisor'']]"

definition demo_parser :: "string \<Rightarrow> node list" where
  "demo_parser body =
     (case body of
        [] \<Rightarrow> []
      | c # cs \<Rightarrow>
          if c = CHR ''q''
          then map (\<lambda>x. Element ''a'' [(''href'', ''/phds/'' @ [x])] []) cs
          else if c = CHR ''s'' then demo_search_page
          else if c = CHR ''m'' then demo_mixed_page
          else if c = CHR ''r'' then demo_rich_page
          else demo_page body)"

definition demo_loads :: "string \<Rightarrow> pyval option" where
  "demo_loads t =
     (if t = ''Q1'' then Some (PyList [PyStr ''qAB''])
      else if t = ''Q2'' then Some (PyList [PyStr ''qABA'', PyStr ''qA''])
      else if t = ''Q3'' then Some (PyList [PyStr ''qEA''])
      else if t = ''Q4'' then Some (PyList [PyStr ''qAL'', PyStr ''qA''])
      else if t = [] then None
      else if last t = CHR ''A'' then Some (PyDict [(''title'', PyStr ''A'')])
      else if last t = CHR ''B''
        then Some (PyDict [(''title'', PyStr ''B''), (''funding'', PyNone)])
      else if last t = CHR ''L'' then Some (PyList [PyInt 1])
      else if last t = CHR ''E'' then Some (PyList [])
      else None)"

definition demo_env :: "unit env" where
  "demo_env = \<lparr>chat_create = demo_chat, requests_get = demo_get,
                html_parser = demo_parser, json_loads = demo_loads\<rparr>"

definition demo_start :: "unit state" where
  "demo_start = \<lparr>world = (), trace = []\<rparr>"

definition demo_config :: "string \<Rightarrow> pyval option" where
  "demo_config t =
     (if t = ''partial''
      then Some (PyDict [(''api_base'', PyStr ''https://api.example/v1''),
                         (''model_name'', PyStr [])])
      else if t = ''full''
      then Some (PyDict [(''api_key'', PyStr ''k''), (''api_base'', PyStr ''b''),
                         (''model_name'', PyStr ''m'')])
      else None)"

section \<open>Configuration loader: validation\<close>

lemma field_missing_dict:
  "field_missing (PyDict kvs) field = Inr (absent_or_empty kvs field)"
proof (cases "map_of kvs field")
  case None
  then have "field \<notin> fst ` set kvs" by (simp add: map_of_eq_None_iff)
  with None show ?thesis by (simp add: field_missing_def absent_or_empty_def)
next
  case (Some v)
  then have "field \<in> fst ` set kvs" by (metis map_of_eq_None_iff option.distinct(1))
  with Some show ?thesis by (simp add: field_missing_def absent_or_empty_def)
qed

lemma missing_fields_dict:
  "missing_fields (PyDict kvs) fs = Inr (filter (absent_or_empty kvs) fs)"
  by (induction fs) (simp_all add: field_missing_dict)

lemma no_missing_fields:
  assumes "filter (absent_or_empty kvs) required_fields = []"
  shows "\<not> absent_or_empty kvs ''api_key''" "\<not> absent_or_empty kvs ''api_base''"
    "\<not> absent_or_empty kvs ''model_name''"
proof -
  from assms have "\<forall>x\<in>set required_fields. \<not> absent_or_empty kvs x"
    by (simp only: filter_empty_conv)
  then show "\<not> absent_or_empty kvs ''api_key''" "\<not> absent_or_empty kvs ''api_base''"
    "\<not> absent_or_empty kvs ''model_name''"
    by (simp_all add: required_fields_def)
qed

lemma load_config_missing:
  assumes "loads text = Some (PyDict kvs)"
    and "filter (absent_or_empty kvs) required_fields \<noteq> []"
  shows "load_config loads (Some text) =
           Inl (ValueError (missing_message (filter (absent_or_empty kvs) required_fields)))"
  unfolding load_config_def using assms by (simp add: missing_fields_dict)

lemma load_config_complete:
  assumes "loads text = Some (PyDict kvs)"
    and "filter (absent_or_empty kvs) required_fields = []"
    and "map_of kvs ''api_key'' = Some k" "map_of kvs ''api_base'' = Some b"
    and "map_of kvs ''model_name'' = Some m"
  shows "load_config loads (Some text) = Inr (k, b, m)"
  unfolding load_config_def using assms by (simp add: missing_fields_dict)

text \<open>
  C4. For a settings file that parses to an object: when some required key is absent or
  has an empty (false) value, \<open>load_config\<close> raises the \<open>ValueError\<close> whose message
  lists exactly those keys, in the order of \<open>required_fields\<close>; when none is, it returns
  the three values, each present and non-empty.
\<close>

theorem load_config_validation:
  assumes "loads text = Some (PyDict kvs)"
  shows "(filter (absent_or_empty kvs) required_fields \<noteq> [] \<longrightarrow>
           load_config loads (Some text) =
             Inl (ValueError (missing_message (filter (absent_or_empty kvs) required_fields))))
       \<and> (filter (absent_or_empty kvs) required_fields = [] \<longrightarrow>
           (\<exists>k b m. load_config loads (Some text) = Inr (k, b, m)
              \<and> map_of kvs ''api_key'' = Some k \<and> py_truthy k
              \<and> map_of kvs ''api_base'' = Some b \<and> py_truthy b
              \<and> map_of kvs ''model_name'' = Some m \<and> py_truthy m))"
proof (intro conjI impI)
  assume "filter (absent_or_empty kvs) required_fields \<noteq> []"
  with assms show "load_config loads (Some text) =
      Inl (ValueError (missing_message (filter (absent_or_empty kvs) required_fields)))"
    by (rule load_config_missing)
next
  assume none: "filter (absent_or_empty kvs) required_fields = []"
  from no_missing_fields(1)[OF none] obtain k
    where k: "map_of kvs ''api_key'' = Some k" "py_truthy k"
    by (auto simp: absent_or_empty_def split: option.splits)
  from no_missing_fields(2)[OF none] obtain b
    where b: "map_of kvs ''api_base'' = Some b" "py_truthy b"
    by (auto simp: absent_or_empty_def split: option.splits)
  from no_missing_fields(3)[OF none] obtain m
    where m: "map_of kvs ''model_name'' = Some m" "py_truthy m"
    by (auto simp: absent_or_empty_def split: option.splits)
  have "load_config loads (Some text) = Inr (k, b, m)"
    using assms none k(1) b(1) m(1) by (rule load_config_complete)
  with k b m show "\<exists>k b m. load_config loads (Some text) = Inr (k, b, m)
              \<and> map_of kvs ''api_key'' = Some k \<and> py_truthy k
              \<and> map_of kvs ''api_base'' = Some b \<and> py_truthy b
              \<and> map_of kvs ''model_name'' = Some m \<and> py_truthy m"
    by blast
qed

theorem load_config_validation_witness:
  "demo_config ''partial'' =
     Some (PyDict [(''api_base'', PyStr ''https://api.example/v1''), (''model_name'', PyStr [])])
   \<and> load_config demo_config (Some ''partial'') =
     Inl (ValueError ''Missing required configuration fields: api_key, model_name'')"
proof -
  let ?kvs = "[(''api_base'', PyStr ''https://api.example/v1''), (''model_name'', PyStr [])]"
  have parsed: "demo_config ''partial'' = Some (PyDict ?kvs)"
    by (simp add: demo_config_def)
  have missing: "filter (absent_or_empty ?kvs) required_fields = [''api_key'', ''model_name'']"
    by (simp add: absent_or_empty_def required_fields_def)
  have "missing_message [''api_key'', ''model_name''] =
      ''Missing required configuration fields: api_key, model_name''"
    by (simp add: missing_message_def)
  with load_config_validation[of demo_config "''partial''" ?kvs] missing parsed show ?thesis
    by simp
qed

section \<open>Query generator: fenced responses\<close>

lemma strip_fences_wrapped: "strip_fences (fence_open @ r @ fence_close) = r"
proof -
  have open_gone: "removeprefix fence_open (fence_open @ r @ fence_close) = r @ fence_close"
    by (simp add: removeprefix_def)
  have "suffix fence_close (r @ fence_close)"
    by (rule suffixI) simp
  moreover have "fence_close \<noteq> []"
    by (simp add: fence_close_def)
  ultimately have "removesuffix fence_close (r @ fence_close) = r"
    by (simp add: removesuffix_def)
  with open_gone show ?thesis
    by (simp add: strip_fences_def)
qed

lemma array_text_no_fence_open:
  assumes "json_array_text r"
  shows "\<not> prefix fence_open r"
proof
  assume "prefix fence_open r"
  then obtain t where r: "r = fence_open @ t" by (auto simp: prefix_def)
  then have "dropWhile json_ws r = r" by (simp add: fence_open_def json_ws_def)
  with assms r show False
    by (simp add: json_array_text_def fence_open_def)
qed

lemma array_text_no_fence_close:
  assumes "json_array_text r"
  shows "\<not> suffix fence_close r"
proof
  assume "suffix fence_close r"
  then obtain t where r: "r = t @ fence_close" by (auto simp: suffix_def)
  then have "dropWhile json_ws (rev r) = rev r" by (simp add: fence_close_def json_ws_def)
  with assms r show False
    by (simp add: json_array_text_def fence_close_def)
qed

lemma strip_fences_array_text: "json_array_text r \<Longrightarrow> strip_fences r = r"
  by (simp add: strip_fences_def removeprefix_def removesuffix_def
      array_text_no_fence_open array_text_no_fence_close)

text \<open>
  C5. For a response \<open>r\<close> with the shape of a JSON array, the parsing step gives the same
  result on \<open>r\<close> wrapped in the fence as on \<open>r\<close> itself, whatever the JSON parser is: in
  both cases the parser receives \<open>r\<close>.
\<close>

theorem fenced_response_same_list:
  assumes "json_array_text r"
  shows "parse_queries loads (fence_open @ r @ fence_close) = parse_queries loads r
       \<and> parse_queries loads r = loads r"
  using assms by (simp add: parse_queries_def strip_fences_wrapped strip_fences_array_text)

theorem fenced_response_same_list_witness:
  "json_array_text ''[1]''
   \<and> parse_queries (\<lambda>t. if t = ''[1]'' then Some (PyList [PyInt 1]) else None) ''```json[1]```''
       = Some (PyList [PyInt 1])
   \<and> parse_queries (\<lambda>t. if t = ''[1]'' then Some (PyList [PyInt 1]) else None) ''[1]''
       = Some (PyList [PyInt 1])"
proof -
  have shape: "json_array_text ''[1]''"
    by (simp add: json_array_text_def json_ws_def)
  from fenced_response_same_list[OF shape,
      of "\<lambda>t. if t = ''[1]'' then Some (PyList [PyInt 1]) else None"] shape
  show ?thesis
    by (simp add: fence_open_def fence_close_def)
qed

section \<open>Field extractor: short blobs\<close>

text \<open>
  C3. For an empty text blob, or one of fewer than 50 characters, \<open>extract_project_info\<close>
  returns \<open>None\<close> and leaves the state as it was: no model request is issued.
\<close>

theorem short_blob_no_model_call:
  assumes "text_blob = [] \<or> length text_blob < 50"
  shows "extract_project_info env text_blob project_url s = (PyNone, s)
       \<and> filter is_chat (trace (snd (extract_project_info env text_blob project_url s)))
           = filter is_chat (trace s)"
  using assms by (auto simp: extract_project_info_def)

theorem short_blob_no_model_call_witness:
  "length ''ten chars.'' < 50
   \<and> extract_project_info demo_env ''ten chars.'' ''https://www.findaphd.com/phds/A'' demo_start
       = (PyNone, demo_start)"
proof -
  have short: "''ten chars.'' = [] \<or> length ''ten chars.'' < 50" by simp
  from short_blob_no_model_call[OF short, of demo_env "''https://www.findaphd.com/phds/A''" demo_start]
  show ?thesis by simp
qed

section \<open>Link harvester\<close>

lemma first_seen_set_cong: "set a = set b \<Longrightarrow> first_seen a xs = first_seen b xs"
proof (induction xs arbitrary: a b)
  case Nil
  show ?case by simp
next
  case (Cons x xs)
  have "first_seen (x # a) xs = first_seen (x # b) xs"
    by (rule Cons.IH) (simp add: Cons.prems)
  moreover have "first_seen a xs = first_seen b xs"
    by (rule Cons.IH) (rule Cons.prems)
  ultimately show ?case using Cons.prems by simp
qed

lemma links_loop_first_seen:
  "links_loop hrefs links =
     links @ first_seen links (map full_url (filter (sublist listings_marker) hrefs))"
proof (induction hrefs arbitrary: links)
  case Nil
  show ?case by simp
next
  case (Cons href hrefs)
  have "first_seen (links @ [full_url href]) ys = first_seen (full_url href # links) ys" for ys
    by (rule first_seen_set_cong) simp
  with Cons show ?case by simp
qed

lemma first_seen_set: "set (first_seen seen xs) = set xs - set seen"
  by (induction xs arbitrary: seen) auto

lemma first_seen_distinct: "distinct (first_seen seen xs)"
  by (induction xs arbitrary: seen) (auto simp: first_seen_set)

lemma harvest_links_first_seen:
  "harvest_links soup =
     first_seen [] (map full_url (filter (sublist listings_marker) (anchor_hrefs soup)))"
  by (simp add: harvest_links_def links_loop_first_seen)

lemma get_project_links_fetched:
  "http_fetch env search_url s = (Some body, s1) \<Longrightarrow>
     get_project_links env search_url s = (harvest_links (html_parser env body), s1)"
  by (simp add: get_project_links_def)

lemma remdups_snoc: "remdups (ys @ [x]) = filter (\<lambda>y. y \<noteq> x) (remdups ys) @ [x]"
  by (induction ys) auto

lemma first_seen_remdups:
  "first_seen seen xs = rev (remdups (rev (filter (\<lambda>x. x \<notin> set seen) xs)))"
proof (induction xs arbitrary: seen)
  case Nil
  show ?case by simp
next
  case (Cons x xs)
  show ?case
  proof (cases "x \<in> set seen")
    case True
    with Cons show ?thesis by simp
  next
    case False
    have "filter (\<lambda>y. y \<noteq> x) (remdups (rev (filter (\<lambda>y. y \<notin> set seen) xs)))
        = remdups (rev (filter (\<lambda>y. y \<notin> set (x # seen)) xs))"
      by (simp add: remdups_filter[symmetric] rev_filter[symmetric] conj_commute)
    with False Cons[of "x # seen"] show ?thesis
      by (simp add: remdups_snoc)
  qed
qed

lemma harvest_links_literal:
  "harvest_links soup =
     rev (remdups (rev (map
       (\<lambda>href. if prefix ''http'' href then href else ''https://www.findaphd.com'' @ href)
       (filter (sublist ''/phds/'') (anchor_hrefs soup)))))"
proof -
  have "full_url = (\<lambda>href. if prefix ''http'' href then href
      else ''https://www.findaphd.com'' @ href)"
    by (rule ext) (simp add: full_url_def base_origin_def)
  then show ?thesis
    by (simp add: harvest_links_first_seen first_seen_remdups listings_marker_def)
qed

text \<open>
  C2. When the search page is fetched, \<open>get_project_links\<close> returns the targets of the
  anchors whose href contains \<open>/phds/\<close>; an href that does not start with the characters
  \<open>http\<close> gets \<open>https://www.findaphd.com\<close> in front and every other href is taken as it
  is; of equal URLs the first is kept, so every URL is there once, in the order in which
  it is first seen in the document.
\<close>

theorem get_project_links_spec:
  assumes "http_fetch env search_url s = (Some body, s1)"
  shows "fst (get_project_links env search_url s) =
           rev (remdups (rev (map
             (\<lambda>href. if prefix ''http'' href then href else ''https://www.findaphd.com'' @ href)
             (filter (sublist ''/phds/'') (anchor_hrefs (html_parser env body))))))
       \<and> distinct (fst (get_project_links env search_url s))
       \<and> set (fst (get_project_links env search_url s)) =
           (\<lambda>href. if prefix ''http'' href then href else ''https://www.findaphd.com'' @ href)
             ` {href \<in> set (anchor_hrefs (html_parser env body)). sublist ''/phds/'' href}"
proof -
  have "fst (get_project_links env search_url s) = harvest_links (html_parser env body)"
    using assms by (simp add: get_project_links_fetched)
  then show ?thesis
    unfolding harvest_links_literal by auto
qed

theorem get_project_links_spec_witness:
  "http_fetch demo_env (PyStr ''search'') demo_start =
     (Some ''search'', \<lparr>world = (), trace = [HttpGet (PyStr ''search'')]\<rparr>)
   \<and> anchor_hrefs (html_parser demo_env ''search'') =
     [''/phds/project/a'', ''/about'', ''https://www.findaphd.com/phds/project/b'',
      ''/phds/project/a'', ''https://www.findaphd.com/phds/project/a'',
      ''https://other.example/jobs'', ''/phds/project/c'']
   \<and> fst (get_project_links demo_env (PyStr ''search'') demo_start) =
     [''https://www.findaphd.com/phds/project/a'', ''https://www.findaphd.com/phds/project/b'',
      ''https://www.findaphd.com/phds/project/c'']"
proof -
  have fetched: "http_fetch demo_env (PyStr ''search'') demo_start =
     (Some ''search'', \<lparr>world = (), trace = [HttpGet (PyStr ''search'')]\<rparr>)"
    by code_simp
  have hrefs: "anchor_hrefs (html_parser demo_env ''search'') =
     [''/phds/project/a'', ''/about'', ''https://www.findaphd.com/phds/project/b'',
      ''/phds/project/a'', ''https://www.findaphd.com/phds/project/a'',
      ''https://other.example/jobs'', ''/phds/project/c'']"
    by code_simp
  have "rev (remdups (rev (map
          (\<lambda>href. if prefix ''http'' href then href else ''https://www.findaphd.com'' @ href)
          (filter (sublist ''/phds/'')
            [''/phds/project/a'', ''/about'', ''https://www.findaphd.com/phds/project/b'',
             ''/phds/project/a'', ''https://www.findaphd.com/phds/project/a'',
             ''https://other.example/jobs'', ''/phds/project/c''])))) =
     [''https://www.findaphd.com/phds/project/a'', ''https://www.findaphd.com/phds/project/b'',
      ''https://www.findaphd.com/phds/project/c'']"
    by code_simp
  with get_project_links_spec[OF fetched, THEN conjunct1] hrefs fetched show ?thesis
    by (simp only: simp_thms)
qed

text \<open>
  With relative read as "without a scheme", the harvest is not what the code returns: an
  \<open>ftp\<close> link is absolute and gets the origin in front, and a relative href that starts
  with \<open>http\<close> is left as it is.
\<close>

theorem relative_href_counterexample:
  "fst (get_project_links demo_env (PyStr ''mixed'') demo_start) =
     [''https://www.findaphd.comftp://files.example/phds/x'', ''httpz/phds/4'']
   \<and> links_as_worded (html_parser demo_env ''mixed'') =
     [''ftp://files.example/phds/x'', ''https://www.findaphd.comhttpz/phds/4'']
   \<and> \<not> relative_href ''ftp://files.example/phds/x''
   \<and> relative_href ''httpz/phds/4''"
  by code_simp

section \<open>Text extractor\<close>

lemma decompose_no_noise:
  "n' \<in> set (decompose names n) \<Longrightarrow> find_all_node (named names) n' = []"
proof (induction n arbitrary: n')
  case (Element t as cs)
  then show ?case
    by (auto simp: named_def split: if_splits)
qed (auto simp: named_def)

lemma decompose_all_no_noise: "find_all (named names) (decompose_all names soup) = []"
  by (auto simp: find_all_def decompose_all_def decompose_no_noise)

lemma decompose_clean:
  "find_all_node (named names) n = [] \<Longrightarrow> decompose names n = [n]"
proof (induction n)
  case (Element t as cs)
  from Element.prems have t: "t \<notin> set names"
    by (auto simp: named_def split: if_splits)
  from Element.prems have "\<forall>c\<in>set cs. find_all_node (named names) c = []"
    by (auto split: if_splits)
  with Element.IH have "\<forall>c\<in>set cs. decompose names c = [c]" by blast
  then have "concat (map (decompose names) cs) = cs"
    by (induction cs) auto
  with t show ?case by simp
qed auto

lemma decompose_all_clean:
  "find_all (named names) soup = [] \<Longrightarrow> decompose_all names soup = soup"
  unfolding find_all_def decompose_all_def
  by (induction soup) (auto simp: decompose_clean)

lemma text_loop_filter:
  "text_loop tags acc = acc @ filter (\<lambda>t. 10 < length t) (map get_text_strip tags)"
  by (induction tags arbitrary: acc) (auto simp: Let_def)

lemma clean_text_filter:
  "clean_text soup =
     py_join [CHR 0x0A] (filter (\<lambda>t. 10 < length t)
       (map get_text_strip (find_all (named content_tags) (decompose_all noise_tags soup))))"
  by (simp add: clean_text_def text_loop_filter)

lemma two_paragraphs:
  assumes "length (py_strip a) = 5" "length (py_strip b) = 50"
  shows "clean_text [Element ''p'' [] [Text a], Element ''p'' [] [Text b]] = py_strip b"
proof -
  have a: "py_strip a \<noteq> []" and b: "py_strip b \<noteq> []" using assms by auto
  have "decompose_all noise_tags [Element ''p'' [] [Text a], Element ''p'' [] [Text b]]
      = [Element ''p'' [] [Text a], Element ''p'' [] [Text b]]"
    by (simp add: decompose_all_def noise_tags_def)
  moreover have "find_all (named content_tags) [Element ''p'' [] [Text a], Element ''p'' [] [Text b]]
      = [Element ''p'' [] [Text a], Element ''p'' [] [Text b]]"
    by (simp add: find_all_def named_def content_tags_def)
  ultimately show ?thesis
    using assms a b by (simp add: clean_text_filter get_text_strip_def)
qed

lemma named_literal:
  "named names = (\<lambda>n. tag_name n \<in> Some ` set names)"
proof
  fix n show "named names n = (tag_name n \<in> Some ` set names)"
    by (cases n) (auto simp: named_def)
qed

lemma py_join_concat:
  "py_join sep (t # ts) = t @ concat (map (\<lambda>u. sep @ u) ts)"
  by (induction ts arbitrary: t) simp_all

lemma content_not_noise: "t \<in> set content_tags \<Longrightarrow> t \<notin> set noise_tags"
  by (auto simp: content_tags_def noise_tags_def)

lemma two_fragments:
  assumes "t \<in> set content_tags" "u \<in> set content_tags"
    and "10 < length (py_strip a)" "10 < length (py_strip b)"
  shows "clean_text [Element t [] [Text a], Element u [] [Text b]]
       = py_strip a @ [CHR 0x0A] @ py_strip b"
proof -
  have a: "py_strip a \<noteq> []" and b: "py_strip b \<noteq> []" using assms by auto
  have "decompose_all noise_tags [Element t [] [Text a], Element u [] [Text b]]
      = [Element t [] [Text a], Element u [] [Text b]]"
    using assms(1,2) by (simp add: decompose_all_def content_not_noise)
  moreover have "find_all (named content_tags) [Element t [] [Text a], Element u [] [Text b]]
      = [Element t [] [Text a], Element u [] [Text b]]"
    using assms(1,2) by (simp add: find_all_def named_def)
  ultimately show ?thesis
    using assms(3,4) a b by (simp add: clean_text_filter get_text_strip_def)
qed

lemma other_element:
  assumes "t \<notin> set content_tags"
  shows "clean_text [Element t [] [Text a]] = []"
proof (cases "t \<in> set noise_tags")
  case True
  then have "decompose_all noise_tags [Element t [] [Text a]] = []"
    by (simp add: decompose_all_def)
  then show ?thesis by (simp add: clean_text_filter find_all_def)
next
  case False
  then have "decompose_all noise_tags [Element t [] [Text a]] = [Element t [] [Text a]]"
    by (simp add: decompose_all_def)
  moreover have "find_all (named content_tags) [Element t [] [Text a]] = []"
    using assms by (simp add: find_all_def named_def)
  ultimately show ?thesis by (simp add: clean_text_filter)
qed

lemma clean_text_literal:
  "clean_text soup =
     (case filter (\<lambda>t. 10 < length t)
             (map get_text_strip
               (find_all (\<lambda>n. tag_name n \<in> Some ` set [''p'', ''h1'', ''h2'', ''h3'', ''h4'', ''li''])
                 (decompose_all [''script'', ''style'', ''nav'', ''footer'', ''header''] soup))) of
        [] \<Rightarrow> []
      | t # ts \<Rightarrow> t @ concat (map (\<lambda>u. CHR 0x0A # u) ts))"
proof -
  let ?frags = "filter (\<lambda>t. 10 < length t)
             (map get_text_strip
               (find_all (\<lambda>n. tag_name n \<in> Some ` set [''p'', ''h1'', ''h2'', ''h3'', ''h4'', ''li''])
                 (decompose_all [''script'', ''style'', ''nav'', ''footer'', ''header''] soup)))"
  have "clean_text soup = py_join [CHR 0x0A] ?frags"
    unfolding clean_text_filter named_literal content_tags_def noise_tags_def by (rule refl)
  also have "\<dots> = (case ?frags of [] \<Rightarrow> [] | t # ts \<Rightarrow> t @ concat (map (\<lambda>u. CHR 0x0A # u) ts))"
    by (cases ?frags) (simp_all only: py_join_concat py_join.simps list.case append_Cons append_Nil)
  finally show ?thesis .
qed

text \<open>
  C8. When the project page is fetched, \<open>get_clean_text\<close> returns the texts, in document
  order, of the \<open>p\<close>, \<open>h1\<close>--\<open>h4\<close> and \<open>li\<close> elements of the page without its
  \<open>script\<close>, \<open>style\<close>, \<open>nav\<close>, \<open>footer\<close> and \<open>header\<close> elements, keeping the texts
  longer than 10 characters: the first, then each further one after a newline. No noise
  element is left after the removal, and a page without noise elements is left as it is.
  Of a paragraph of 5 characters and one of 50 characters only the second is kept; two
  content elements with long texts give the first text, a newline and the second text;
  an element of any other name alone gives nothing.
\<close>

theorem get_clean_text_spec:
  assumes "http_fetch env (PyStr project_url) s = (Some body, s1)"
  shows "fst (get_clean_text env project_url s) =
           (case filter (\<lambda>t. 10 < length t)
                   (map get_text_strip
                     (find_all
                       (\<lambda>n. tag_name n \<in> Some ` set [''p'', ''h1'', ''h2'', ''h3'', ''h4'', ''li''])
                       (decompose_all [''script'', ''style'', ''nav'', ''footer'', ''header'']
                         (html_parser env body)))) of
              [] \<Rightarrow> []
            | t # ts \<Rightarrow> t @ concat (map (\<lambda>u. CHR 0x0A # u) ts))
       \<and> find_all (\<lambda>n. tag_name n \<in> Some ` set [''script'', ''style'', ''nav'', ''footer'', ''header''])
           (decompose_all [''script'', ''style'', ''nav'', ''footer'', ''header'']
             (html_parser env body)) = []
       \<and> (find_all (\<lambda>n. tag_name n \<in> Some ` set [''script'', ''style'', ''nav'', ''footer'', ''header''])
             (html_parser env body) = [] \<longrightarrow>
            decompose_all [''script'', ''style'', ''nav'', ''footer'', ''header'']
              (html_parser env body) = html_parser env body)
       \<and> (\<forall>a b. length (py_strip a) = 5 \<and> length (py_strip b) = 50 \<longrightarrow>
            clean_text [Element ''p'' [] [Text a], Element ''p'' [] [Text b]] = py_strip b)
       \<and> (\<forall>t u a b. t \<in> set [''p'', ''h1'', ''h2'', ''h3'', ''h4'', ''li'']
              \<and> u \<in> set [''p'', ''h1'', ''h2'', ''h3'', ''h4'', ''li'']
              \<and> 10 < length (py_strip a) \<and> 10 < length (py_strip b) \<longrightarrow>
            clean_text [Element t [] [Text a], Element u [] [Text b]]
              = py_strip a @ [CHR 0x0A] @ py_strip b)
       \<and> (\<forall>t a. t \<notin> set [''p'', ''h1'', ''h2'', ''h3'', ''h4'', ''li''] \<longrightarrow>
            clean_text [Element t [] [Text a]] = [])"
proof (intro conjI allI impI)
  have "fst (get_clean_text env project_url s) = clean_text (html_parser env body)"
    using assms by (simp add: get_clean_text_def)
  then show "fst (get_clean_text env project_url s) =
           (case filter (\<lambda>t. 10 < length t)
                   (map get_text_strip
                     (find_all
                       (\<lambda>n. tag_name n \<in> Some ` set [''p'', ''h1'', ''h2'', ''h3'', ''h4'', ''li''])
                       (decompose_all [''script'', ''style'', ''nav'', ''footer'', ''header'']
                         (html_parser env body)))) of
              [] \<Rightarrow> []
            | t # ts \<Rightarrow> t @ concat (map (\<lambda>u. CHR 0x0A # u) ts))"
    by (simp only: clean_text_literal)
next
  show "find_all (\<lambda>n. tag_name n \<in> Some ` set [''script'', ''style'', ''nav'', ''footer'', ''header''])
           (decompose_all [''script'', ''style'', ''nav'', ''footer'', ''header'']
             (html_parser env body)) = []"
    using decompose_all_no_noise[of "[''script'', ''style'', ''nav'', ''footer'', ''header'']"]
    unfolding named_literal .
next
  assume "find_all (\<lambda>n. tag_name n \<in> Some ` set [''script'', ''style'', ''nav'', ''footer'', ''header''])
             (html_parser env body) = []"
  then show "decompose_all [''script'', ''style'', ''nav'', ''footer'', ''header'']
              (html_parser env body) = html_parser env body"
    using decompose_all_clean[of "[''script'', ''style'', ''nav'', ''footer'', ''header'']"]
    unfolding named_literal by blast
next
  fix a b assume "length (py_strip a) = 5 \<and> length (py_strip b) = 50"
  then show "clean_text [Element ''p'' [] [Text a], Element ''p'' [] [Text b]] = py_strip b"
    by (simp add: two_paragraphs)
next
  fix t u a b
  assume h: "t \<in> set [''p'', ''h1'', ''h2'', ''h3'', ''h4'', ''li'']
              \<and> u \<in> set [''p'', ''h1'', ''h2'', ''h3'', ''h4'', ''li'']
              \<and> 10 < length (py_strip a) \<and> 10 < length (py_strip b)"
  then have "t \<in> set content_tags" "u \<in> set content_tags"
    unfolding content_tags_def by (rule conjunct1, rule conjunct2[THEN conjunct1])
  moreover from h have "10 < length (py_strip a)" "10 < length (py_strip b)"
    by (rule conjunct2[THEN conjunct2, THEN conjunct1], rule conjunct2[THEN conjunct2, THEN conjunct2])
  ultimately show "clean_text [Element t [] [Text a], Element u [] [Text b]]
              = py_strip a @ [CHR 0x0A] @ py_strip b"
    by (rule two_fragments)
next
  fix t a assume "t \<notin> set [''p'', ''h1'', ''h2'', ''h3'', ''h4'', ''li'']"
  then have "t \<notin> set content_tags" unfolding content_tags_def .
  then show "clean_text [Element t [] [Text a]] = []" by (rule other_element)
qed

theorem get_clean_text_spec_witness:
  "http_fetch demo_env (PyStr ''rich'') demo_start =
     (Some ''rich'', \<lparr>world = (), trace = [HttpGet (PyStr ''rich'')]\<rparr>)
   \<and> fst (get_clean_text demo_env ''rich'' demo_start) =
       ''PhD in Machine Learning'' @ [CHR 0x0A] @ ''About the project'' @ [CHR 0x0A]
       @ ''This project studieslarge languagemodels.'' @ [CHR 0x0A]
       @ ''Entry requirements'' @ [CHR 0x0A] @ ''Funding: fully funded'' @ [CHR 0x0A]
       @ ''Contact the supervisor''
   \<and> clean_text [Element ''p'' [] [Text ''short''],
        Element ''p'' [] [Text ''A paragraph of exactly fifty characters in length.'']]
       = ''A paragraph of exactly fifty characters in length.''
   \<and> clean_text [Element ''h2'' [] [Text ''Second heading''],
        Element ''li'' [] [Text ''A list item of the page'']]
       = ''Second heading'' @ [CHR 0x0A] @ ''A list item of the page''
   \<and> clean_text [Element ''div'' [] [Text ''Text of a division, not kept'']] = []"
proof -
  have fetched: "http_fetch demo_env (PyStr ''rich'') demo_start =
     (Some ''rich'', \<lparr>world = (), trace = [HttpGet (PyStr ''rich'')]\<rparr>)"
    by code_simp
  note spec = get_clean_text_spec[OF fetched]
  have page: "(case filter (\<lambda>t. 10 < length t)
                   (map get_text_strip
                     (find_all
                       (\<lambda>n. tag_name n \<in> Some ` set [''p'', ''h1'', ''h2'', ''h3'', ''h4'', ''li''])
                       (decompose_all [''script'', ''style'', ''nav'', ''footer'', ''header'']
                         (html_parser demo_env ''rich'')))) of
              [] \<Rightarrow> []
            | t # ts \<Rightarrow> t @ concat (map (\<lambda>u. CHR 0x0A # u) ts))
     = ''PhD in Machine Learning'' @ [CHR 0x0A] @ ''About the project'' @ [CHR 0x0A]
       @ ''This project studieslarge languagemodels.'' @ [CHR 0x0A]
       @ ''Entry requirements'' @ [CHR 0x0A] @ ''Funding: fully funded'' @ [CHR 0x0A]
       @ ''Contact the supervisor''"
    by code_simp
  have c1: "fst (get_clean_text demo_env ''rich'' demo_start) =
       ''PhD in Machine Learning'' @ [CHR 0x0A] @ ''About the project'' @ [CHR 0x0A]
       @ ''This project studieslarge languagemodels.'' @ [CHR 0x0A]
       @ ''Entry requirements'' @ [CHR 0x0A] @ ''Funding: fully funded'' @ [CHR 0x0A]
       @ ''Contact the supervisor''"
    using spec[THEN conjunct1] page by (rule trans)
  have c2: "clean_text [Element ''p'' [] [Text ''short''],
        Element ''p'' [] [Text ''A paragraph of exactly fifty characters in length.'']]
       = ''A paragraph of exactly fifty characters in length.''"
    by code_simp
  have c3: "clean_text [Element ''h2'' [] [Text ''Second heading''],
        Element ''li'' [] [Text ''A list item of the page'']]
       = ''Second heading'' @ [CHR 0x0A] @ ''A list item of the page''"
    by code_simp
  have c4: "clean_text [Element ''div'' [] [Text ''Text of a division, not kept'']] = []"
    by code_simp
  from fetched c1 c2 c3 c4 show ?thesis by (intro conjI)
qed

section \<open>Traces of the pipeline steps\<close>

lemma chat_completion_trace:
  "chat_completion env p s = (r, s1) \<Longrightarrow> trace s1 = trace s @ [ChatRequest p]"
  by (auto simp: chat_completion_def split: prod.splits)

lemma http_fetch_trace:
  "http_fetch env url s = (r, s1) \<Longrightarrow> trace s1 = trace s @ [HttpGet url]"
  by (auto simp: http_fetch_def split: prod.splits)

lemma get_project_links_trace:
  "get_project_links env q s = (links, s1) \<Longrightarrow> trace s1 = trace s @ [HttpGet q]"
  by (auto simp: get_project_links_def split: prod.splits option.splits dest: http_fetch_trace)

lemma get_clean_text_trace:
  "get_clean_text env url s = (blob, s1) \<Longrightarrow> trace s1 = trace s @ [HttpGet (PyStr url)]"
  by (auto simp: get_clean_text_def split: prod.splits option.splits dest: http_fetch_trace)

lemma extract_project_info_trace:
  "extract_project_info env blob url s = (v, s1) \<Longrightarrow>
     trace s1 = trace s \<or> trace s1 = trace s @ [ChatRequest (ExtractPrompt (take 4000 blob))]"
  by (auto simp: extract_project_info_def split: if_splits prod.splits option.splits
      dest: chat_completion_trace)

lemma dict_update_has_key: "k \<in> fst ` set (dict_update k v kvs)"
  by (induction kvs) auto

lemma py_setitem_url:
  "py_setitem v ''url'' u = Inr record \<Longrightarrow> ''url'' \<in> set (dict_keys record)"
  by (cases v) (auto simp: dict_update_has_key)

lemma link_step_trace:
  assumes "link_step env url ps s = (r, s1)"
  shows "\<exists>reqs. (\<forall>e\<in>set reqs. is_request e) \<and>
      ((r = Inr ps \<and> trace s1 = trace s @ reqs) \<or>
       (\<exists>record. r = Inr (ps @ [record]) \<and> ''url'' \<in> set (dict_keys record)
            \<and> trace s1 = trace s @ reqs @ [Accepted url]) \<or>
       (\<exists>e. r = Inl e \<and> trace s1 = trace s @ reqs))"
proof -
  obtain blob sa where gt: "get_clean_text env url s = (blob, sa)"
    by (cases "get_clean_text env url s")
  note ta = get_clean_text_trace[OF gt]
  show ?thesis
  proof (cases "blob = []")
    case True
    with assms gt have "r = Inr ps" "s1 = sa" by (simp_all add: link_step_def)
    with ta have "(\<forall>e\<in>set [HttpGet (PyStr url)]. is_request e) \<and> r = Inr ps
        \<and> trace s1 = trace s @ [HttpGet (PyStr url)]" by simp
    then show ?thesis by blast
  next
    case False
    note nonempty = False
    obtain v sb where ex: "extract_project_info env blob url sa = (v, sb)"
      by (cases "extract_project_info env blob url sa")
    have "trace sb = trace sa \<or> trace sb = trace sa @ [ChatRequest (ExtractPrompt (take 4000 blob))]"
      using ex by (rule extract_project_info_trace)
    then obtain reqs where reqs: "\<forall>e\<in>set reqs. is_request e" "trace sb = trace s @ reqs"
    proof
      assume "trace sb = trace sa"
      with ta have "\<forall>e\<in>set [HttpGet (PyStr url)]. is_request e"
        "trace sb = trace s @ [HttpGet (PyStr url)]" by simp_all
      then show ?thesis by (rule that)
    next
      assume "trace sb = trace sa @ [ChatRequest (ExtractPrompt (take 4000 blob))]"
      with ta have "\<forall>e\<in>set [HttpGet (PyStr url), ChatRequest (ExtractPrompt (take 4000 blob))].
          is_request e"
        "trace sb = trace s @ [HttpGet (PyStr url), ChatRequest (ExtractPrompt (take 4000 blob))]"
        by simp_all
      then show ?thesis by (rule that)
    qed
    show ?thesis
    proof (cases "py_truthy v")
      case False
      with assms gt ex nonempty have "r = Inr ps" "s1 = sb" by (simp_all add: link_step_def)
      with reqs show ?thesis by blast
    next
      case True
      note yes = True
      show ?thesis
      proof (cases "py_setitem v ''url'' (PyStr url)")
        case (Inl e)
        with assms gt ex nonempty yes have "r = Inl e" "s1 = sb" by (simp_all add: link_step_def)
        with reqs show ?thesis by blast
      next
        case (Inr row)
        with assms gt ex nonempty yes have "r = Inr (ps @ [row])"
          "s1 = sb\<lparr>trace := trace sb @ [Accepted url]\<rparr>" by (simp_all add: link_step_def)
        with reqs py_setitem_url[OF Inr] show ?thesis by auto
      qed
    qed
  qed
qed

section \<open>The record cap\<close>

lemma request_not_accept: "is_request e \<Longrightarrow> \<not> is_accept e"
  by (cases e) auto

lemma quiet_after_requests:
  "0 < k \<Longrightarrow> \<forall>e\<in>set reqs. is_request e \<Longrightarrow> quiet_after k (reqs @ evs) = quiet_after k evs"
  by (induction reqs) (auto simp: request_not_accept)

lemma quiet_after_append:
  "quiet_after k xs \<Longrightarrow> quiet_after (k - length (filter is_accept xs)) ys
     \<Longrightarrow> quiet_after k (xs @ ys)"
proof (induction xs arbitrary: k)
  case Nil
  then show ?case by simp
next
  case (Cons e es)
  show ?case
  proof (cases "k = 0")
    case True
    with Cons.prems have "quiet_after 0 es" "\<not> is_request e" "quiet_after 0 ys" by simp_all
    with Cons.IH[of 0] True show ?thesis by simp
  next
    case False
    let ?k = "if is_accept e then k - 1 else k"
    from Cons.prems False have "quiet_after ?k es" by simp
    moreover from Cons.prems have "quiet_after (?k - length (filter is_accept es)) ys"
      by (auto split: if_splits)
    ultimately have "quiet_after ?k (es @ ys)" by (rule Cons.IH)
    with False show ?thesis by simp
  qed
qed

lemma quiet_after_zero: "quiet_after 0 evs \<Longrightarrow> filter is_request evs = []"
  by (induction evs) auto

lemma quiet_after_zero_suffix: "quiet_after 0 (pre @ post) \<Longrightarrow> quiet_after 0 post"
  by (induction pre) auto

lemma quiet_after_split:
  "quiet_after k (pre @ post) \<Longrightarrow> k \<le> length (filter is_accept pre)
     \<Longrightarrow> filter is_request post = []"
proof (induction pre arbitrary: k)
  case Nil
  then show ?case by (simp add: quiet_after_zero)
next
  case (Cons e es)
  show ?case
  proof (cases "k = 0")
    case True
    with Cons.prems have "quiet_after 0 (es @ post)" by simp
    then have "quiet_after 0 post" by (rule quiet_after_zero_suffix)
    then show ?thesis by (rule quiet_after_zero)
  next
    case False
    let ?k = "if is_accept e then k - 1 else k"
    from Cons.prems False have "quiet_after ?k (es @ post)" by simp
    moreover from Cons.prems False have "?k \<le> length (filter is_accept es)"
      by (auto split: if_splits)
    ultimately show ?thesis by (rule Cons.IH)
  qed
qed

lemma quiet_after_non_request: "\<not> is_request e \<Longrightarrow> quiet_after k [e]"
  by simp

lemma cap_reached_Some:
  "cap_reached (Some n) ps \<longleftrightarrow> n \<noteq> 0 \<and> n \<le> int (length ps)"
  by (simp add: cap_reached_def)

lemma process_links_capped:
  assumes "process_links env (Some n) links ps s = (r, s')" and "1 \<le> n"
    and "int (length ps) \<le> n"
  shows "\<exists>evs. trace s' = trace s @ evs \<and> quiet_after (nat n - length ps) evs
           \<and> (\<forall>ps'. r = Inr ps' \<longrightarrow>
                 int (length ps') \<le> n \<and> length ps' = length ps + length (filter is_accept evs))"
  using assms
proof (induction links arbitrary: ps s)
  case Nil
  then show ?case by auto
next
  case (Cons url urls)
  show ?case
  proof (cases "cap_reached (Some n) ps")
    case True
    with Cons.prems show ?thesis by auto
  next
    case False
    with Cons.prems have less: "int (length ps) < n" by (simp add: cap_reached_Some)
    then have k: "0 < nat n - length ps" by linarith
    obtain r1 s1 where step: "link_step env url ps s = (r1, s1)"
      by (cases "link_step env url ps s")
    from link_step_trace[OF step] obtain reqs where reqs: "\<forall>e\<in>set reqs. is_request e"
      and shape: "(r1 = Inr ps \<and> trace s1 = trace s @ reqs) \<or>
       (\<exists>row. r1 = Inr (ps @ [row]) \<and> ''url'' \<in> set (dict_keys row)
            \<and> trace s1 = trace s @ reqs @ [Accepted url]) \<or>
       (\<exists>e. r1 = Inl e \<and> trace s1 = trace s @ reqs)"
      by blast
    have no_acc: "filter is_accept reqs = []"
      using reqs by (auto simp: filter_empty_conv request_not_accept)
    from shape show ?thesis
    proof (elim disjE exE conjE)
      assume r1: "r1 = Inr ps" and t1: "trace s1 = trace s @ reqs"
      with Cons.prems False step have run: "process_links env (Some n) urls ps s1 = (r, s')"
        by simp
      from Cons.IH[OF run \<open>1 \<le> n\<close> \<open>int (length ps) \<le> n\<close>]
      obtain evs where evs: "trace s' = trace s1 @ evs" "quiet_after (nat n - length ps) evs"
        "\<forall>ps'. r = Inr ps' \<longrightarrow>
            int (length ps') \<le> n \<and> length ps' = length ps + length (filter is_accept evs)"
        by blast
      have "trace s' = trace s @ (reqs @ evs)" using evs(1) t1 by simp
      moreover have "quiet_after (nat n - length ps) (reqs @ evs)"
        using k reqs evs(2) by (simp add: quiet_after_requests)
      moreover have "\<forall>ps'. r = Inr ps' \<longrightarrow> int (length ps') \<le> n
          \<and> length ps' = length ps + length (filter is_accept (reqs @ evs))"
        using evs(3) no_acc by auto
      ultimately show ?thesis by blast
    next
      fix row
      assume r1: "r1 = Inr (ps @ [row])" and t1: "trace s1 = trace s @ reqs @ [Accepted url]"
      with Cons.prems False step
      have run: "process_links env (Some n) urls (ps @ [row]) s1 = (r, s')"
        by simp
      from less have le: "int (length (ps @ [row])) \<le> n" by simp
      from Cons.IH[OF run \<open>1 \<le> n\<close> le]
      obtain evs where evs: "trace s' = trace s1 @ evs"
        "quiet_after (nat n - length (ps @ [row])) evs"
        "\<forall>ps'. r = Inr ps' \<longrightarrow> int (length ps') \<le> n
            \<and> length ps' = length (ps @ [row]) + length (filter is_accept evs)"
        by blast
      have "trace s' = trace s @ (reqs @ Accepted url # evs)" using evs(1) t1 by simp
      moreover have "quiet_after (nat n - length ps) (reqs @ Accepted url # evs)"
      proof -
        have "nat n - length (ps @ [row]) = nat n - length ps - 1" by simp
        with evs(2) k have "quiet_after (nat n - length ps) (Accepted url # evs)" by simp
        with k reqs show ?thesis by (simp add: quiet_after_requests)
      qed
      moreover have "\<forall>ps'. r = Inr ps' \<longrightarrow> int (length ps') \<le> n
          \<and> length ps' = length ps + length (filter is_accept (reqs @ Accepted url # evs))"
        using evs(3) no_acc by auto
      ultimately show ?thesis by blast
    next
      fix e
      assume r1: "r1 = Inl e" and t1: "trace s1 = trace s @ reqs"
      with Cons.prems False step have "r = Inl e" "s' = s1" by simp_all
      moreover have "quiet_after (nat n - length ps) (reqs @ [])"
        using k reqs by (simp only: quiet_after_requests quiet_after.simps)
      ultimately show ?thesis using t1 by auto
    qed
  qed
qed

lemma process_queries_capped:
  assumes "process_queries env (Some n) qs ps s = (r, s')" and "1 \<le> n"
    and "int (length ps) < n"
  shows "\<exists>evs. trace s' = trace s @ evs \<and> quiet_after (nat n - length ps) evs
           \<and> (\<forall>ps'. r = Inr ps' \<longrightarrow>
                 int (length ps') \<le> n \<and> length ps' = length ps + length (filter is_accept evs))"
  using assms
proof (induction qs arbitrary: ps s)
  case Nil
  then show ?case by auto
next
  case (Cons q qs)
  from Cons.prems have k: "0 < nat n - length ps" by linarith
  obtain links s1 where gl: "get_project_links env q s = (links, s1)"
    by (cases "get_project_links env q s")
  note t1 = get_project_links_trace[OF gl]
  have head: "quiet_after (nat n - length ps) (HttpGet q # evs)
      = quiet_after (nat n - length ps) evs" for evs
    using k by simp
  show ?case
  proof (cases "links = []")
    case True
    with Cons.prems gl have run: "process_queries env (Some n) qs ps s1 = (r, s')" by simp
    from Cons.IH[OF run \<open>1 \<le> n\<close> \<open>int (length ps) < n\<close>]
    obtain evs where evs: "trace s' = trace s1 @ evs" "quiet_after (nat n - length ps) evs"
      "\<forall>ps'. r = Inr ps' \<longrightarrow>
          int (length ps') \<le> n \<and> length ps' = length ps + length (filter is_accept evs)"
      by blast
    have "trace s' = trace s @ (HttpGet q # evs)" using evs(1) t1 by simp
    moreover have "quiet_after (nat n - length ps) (HttpGet q # evs)"
      using evs(2) head by simp
    moreover have "\<forall>ps'. r = Inr ps' \<longrightarrow> int (length ps') \<le> n
        \<and> length ps' = length ps + length (filter is_accept (HttpGet q # evs))"
      using evs(3) by auto
    ultimately show ?thesis by blast
  next
    case False
    note some_links = False
    obtain r2 s2 where pl: "process_links env (Some n) links ps s1 = (r2, s2)"
      by (cases "process_links env (Some n) links ps s1")
    from Cons.prems have le: "int (length ps) \<le> n" by simp
    from process_links_capped[OF pl \<open>1 \<le> n\<close> le]
    obtain evs1 where evs1: "trace s2 = trace s1 @ evs1"
      "quiet_after (nat n - length ps) evs1"
      "\<forall>ps'. r2 = Inr ps' \<longrightarrow>
          int (length ps') \<le> n \<and> length ps' = length ps + length (filter is_accept evs1)"
      by blast
    have stop: ?thesis if "r = r2" "s' = s2"
    proof -
      have "trace s' = trace s @ (HttpGet q # evs1)" using evs1(1) t1 that by simp
      moreover have "quiet_after (nat n - length ps) (HttpGet q # evs1)"
        using evs1(2) head by simp
      moreover have "\<forall>ps'. r = Inr ps' \<longrightarrow> int (length ps') \<le> n
          \<and> length ps' = length ps + length (filter is_accept (HttpGet q # evs1))"
        using evs1(3) that by auto
      ultimately show ?thesis by blast
    qed
    show ?thesis
    proof (cases r2)
      case (Inl e)
      with Cons.prems gl some_links pl have "r = r2" "s' = s2" by simp_all
      then show ?thesis by (rule stop)
    next
      case (Inr ps2)
      show ?thesis
      proof (cases "cap_reached (Some n) ps2")
        case True
        with Cons.prems gl some_links pl Inr have "r = r2" "s' = s2" by simp_all
        then show ?thesis by (rule stop)
      next
        case False
        with Cons.prems gl some_links pl Inr
        have run: "process_queries env (Some n) qs ps2 s2 = (r, s')" by simp
        from evs1(3) Inr have len2: "int (length ps2) \<le> n"
          "length ps2 = length ps + length (filter is_accept evs1)" by simp_all
        with False \<open>1 \<le> n\<close> have less2: "int (length ps2) < n"
          by (simp add: cap_reached_Some)
        from Cons.IH[OF run \<open>1 \<le> n\<close> less2]
        obtain evs2 where evs2: "trace s' = trace s2 @ evs2"
          "quiet_after (nat n - length ps2) evs2"
          "\<forall>ps'. r = Inr ps' \<longrightarrow>
              int (length ps') \<le> n \<and> length ps' = length ps2 + length (filter is_accept evs2)"
          by blast
        have "nat n - length ps2 = nat n - length ps - length (filter is_accept evs1)"
          using len2(2) by simp
        with evs1(2) evs2(2) have "quiet_after (nat n - length ps) (evs1 @ evs2)"
          by (simp add: quiet_after_append)
        then have "quiet_after (nat n - length ps) (HttpGet q # evs1 @ evs2)"
          using head by simp
        moreover have "trace s' = trace s @ (HttpGet q # evs1 @ evs2)"
          using evs2(1) evs1(1) t1 by simp
        moreover have "\<forall>ps'. r = Inr ps' \<longrightarrow> int (length ps') \<le> n
            \<and> length ps' = length ps + length (filter is_accept (HttpGet q # evs1 @ evs2))"
          using evs2(3) len2(2) by auto
        ultimately show ?thesis by blast
      qed
    qed
  qed
qed

lemma generate_search_queries_trace:
  "generate_search_queries env user_prompt s = (g, s1) \<Longrightarrow>
     trace s1 = trace s @ [ChatRequest (QueryPrompt user_prompt)]"
  by (auto simp: generate_search_queries_def split: prod.splits option.splits sum.splits
      dest: chat_completion_trace)

lemma main_agent_parse_failure:
  "generate_search_queries env user_prompt s = (Inl JSONDecodeError, s1) \<Longrightarrow>
     main_agent env user_prompt max_projects s = (Inr None, s1)"
  by (simp add: main_agent_def)

lemma main_agent_generate_error:
  "generate_search_queries env user_prompt s = (Inl e, s1) \<Longrightarrow> e \<noteq> JSONDecodeError \<Longrightarrow>
     main_agent env user_prompt max_projects s = (Inl e, s1)"
  by (cases e) (simp_all add: main_agent_def)

lemma main_agent_iter_error:
  "generate_search_queries env user_prompt s = (Inr qv, s1) \<Longrightarrow> py_iter qv = Inl e \<Longrightarrow>
     main_agent env user_prompt max_projects s = (Inl e, s1)"
  by (simp add: main_agent_def)

lemma main_agent_abort:
  "generate_search_queries env user_prompt s = (Inr qv, s1) \<Longrightarrow> py_iter qv = Inr qs \<Longrightarrow>
   process_queries env max_projects qs [] s1 = (Inl e, s2) \<Longrightarrow>
     main_agent env user_prompt max_projects s = (Inl e, s2)"
  by (simp add: main_agent_def)

lemma main_agent_done:
  "generate_search_queries env user_prompt s = (Inr qv, s1) \<Longrightarrow> py_iter qv = Inr qs \<Longrightarrow>
   process_queries env max_projects qs [] s1 = (Inr ps, s2) \<Longrightarrow>
     main_agent env user_prompt max_projects s =
       (Inr (Some ps),
        if ps \<noteq> []
        then s2\<lparr>trace := trace s2 @ [CsvWrite csv_file (dataframe_columns ps) ps]\<rparr>
        else s2)"
  by (simp add: main_agent_def)

lemma main_agent_capped:
  assumes "main_agent env user_prompt (Some n) s = (r, s')" and "1 \<le> n"
  shows "\<exists>evs. trace s' = trace s @ evs \<and> quiet_after (nat n) evs
           \<and> (\<forall>ps. r = Inr (Some ps) \<longrightarrow>
                 int (length ps) \<le> n \<and> length ps = length (filter is_accept evs))"
proof -
  obtain g s1 where gen: "generate_search_queries env user_prompt s = (g, s1)"
    by (cases "generate_search_queries env user_prompt s")
  note t1 = generate_search_queries_trace[OF gen]
  from \<open>1 \<le> n\<close> have k: "0 < nat n" by simp
  let ?chat = "ChatRequest (QueryPrompt user_prompt)"
  have early: ?thesis if "s' = s1" "\<forall>ps. r \<noteq> Inr (Some ps)"
  proof -
    have "trace s' = trace s @ [?chat]" using t1 that by simp
    moreover have "quiet_after (nat n) [?chat]" using k by simp
    ultimately show ?thesis using that(2) by blast
  qed
  show ?thesis
  proof (cases g)
    case (Inl e)
    show ?thesis
    proof (cases "e = JSONDecodeError")
      case True
      with gen Inl assms(1) have "r = Inr None" "s' = s1"
        by (simp_all add: main_agent_parse_failure)
      then show ?thesis by (intro early) simp_all
    next
      case False
      with gen Inl assms(1) have "r = Inl e" "s' = s1"
        by (simp_all add: main_agent_generate_error)
      then show ?thesis by (intro early) simp_all
    qed
  next
    case (Inr qv)
    show ?thesis
    proof (cases "py_iter qv")
      case (Inl e)
      with gen Inr assms(1) have "r = Inl e" "s' = s1"
        by (simp_all add: main_agent_iter_error)
      then show ?thesis by (intro early) simp_all
    next
      case iter: (Inr qs)
      obtain r2 s2 where pq: "process_queries env (Some n) qs [] s1 = (r2, s2)"
        by (cases "process_queries env (Some n) qs [] s1")
      from \<open>1 \<le> n\<close> have "int (length ([]::pyval list)) < n" by simp
      from process_queries_capped[OF pq \<open>1 \<le> n\<close> this]
      obtain evs where evs: "trace s2 = trace s1 @ evs" "quiet_after (nat n) evs"
        "\<forall>ps'. r2 = Inr ps' \<longrightarrow>
            int (length ps') \<le> n \<and> length ps' = length (filter is_accept evs)"
        by auto
      have q1: "quiet_after (nat n) (?chat # evs)" using k evs(2) by simp
      show ?thesis
      proof (cases r2)
        case (Inl e)
        with gen Inr iter pq assms(1) have "r = Inl e" "s' = s2"
          by (simp_all add: main_agent_abort)
        moreover have "trace s2 = trace s @ (?chat # evs)" using evs(1) t1 by simp
        ultimately show ?thesis using q1 by blast
      next
        case run: (Inr ps)
        from main_agent_done[OF gen[unfolded Inr] iter pq[unfolded run]] assms(1)
        have r: "r = Inr (Some ps)"
          and s': "s' = (if ps \<noteq> []
              then s2\<lparr>trace := trace s2 @ [CsvWrite csv_file (dataframe_columns ps) ps]\<rparr>
              else s2)"
          by simp_all
        let ?csv = "if ps \<noteq> [] then [CsvWrite csv_file (dataframe_columns ps) ps] else []"
        have "trace s' = trace s @ ((?chat # evs) @ ?csv)"
          using s' evs(1) t1 by simp
        moreover have "quiet_after (nat n) ((?chat # evs) @ ?csv)"
          using q1 by (intro quiet_after_append) simp_all
        moreover have "\<forall>ps'. r = Inr (Some ps') \<longrightarrow> int (length ps') \<le> n
            \<and> length ps' = length (filter is_accept ((?chat # evs) @ ?csv))"
          using evs(3) run r by auto
        ultimately show ?thesis by blast
      qed
    qed
  qed
qed

text \<open>
  C1, for caps of at least 1. In a run with a record cap \<open>n \<ge> 1\<close>, the result list
  has at most \<open>n\<close> records, as many as the run accepted, and in the trace of the run no
  model or HTTP request follows the \<open>n\<close>-th accepted record: no further link is fetched
  and no further query is processed.
\<close>

theorem record_cap_respected:
  assumes "main_agent env user_prompt (Some n) s = (r, s')" and "1 \<le> n"
  shows "(\<forall>ps. r = Inr (Some ps) \<longrightarrow> int (length ps) \<le> n)
       \<and> (\<exists>evs. trace s' = trace s @ evs
            \<and> (\<forall>ps. r = Inr (Some ps) \<longrightarrow> length ps = length (filter is_accept evs))
            \<and> (\<forall>pre post. evs = pre @ post \<and> n \<le> int (length (filter is_accept pre))
                  \<longrightarrow> filter is_request post = []))"
proof -
  from main_agent_capped[OF assms]
  obtain evs where evs: "trace s' = trace s @ evs" "quiet_after (nat n) evs"
    "\<forall>ps. r = Inr (Some ps) \<longrightarrow>
        int (length ps) \<le> n \<and> length ps = length (filter is_accept evs)"
    by blast
  have "filter is_request post = []"
    if "evs = pre @ post" "n \<le> int (length (filter is_accept pre))" for pre post
  proof -
    from that(2) have "nat n \<le> length (filter is_accept pre)" by simp
    with evs(2) that(1) show ?thesis by (auto intro: quiet_after_split)
  qed
  with evs(1,3) show ?thesis by blast
qed

theorem record_cap_respected_witness:
  "(1::int) \<le> 1
   \<and> main_agent demo_env ''Q2'' (Some 1) demo_start =
      (Inr (Some [PyDict [(''title'', PyStr ''A''),
                          (''url'', PyStr ''https://www.findaphd.com/phds/A'')]]),
       \<lparr>world = (),
        trace =
          [ChatRequest (QueryPrompt ''Q2''), HttpGet (PyStr ''qABA''),
           HttpGet (PyStr ''https://www.findaphd.com/phds/A''),
           ChatRequest (ExtractPrompt
             ''https://www.findaphd.com/phds/Ahttps://www.findaphd.com/phds/A''),
           Accepted ''https://www.findaphd.com/phds/A'',
           CsvWrite ''phd_listings.csv'' [''title'', ''url'']
             [PyDict [(''title'', PyStr ''A''),
                      (''url'', PyStr ''https://www.findaphd.com/phds/A'')]]]\<rparr>)
   \<and> int (length [PyDict [(''title'', PyStr ''A''),
                           (''url'', PyStr ''https://www.findaphd.com/phds/A'')]]) \<le> 1"
proof -
  have one: "(1::int) \<le> 1" by simp
  have run: "main_agent demo_env ''Q2'' (Some 1) demo_start =
      (Inr (Some [PyDict [(''title'', PyStr ''A''),
                          (''url'', PyStr ''https://www.findaphd.com/phds/A'')]]),
       \<lparr>world = (),
        trace =
          [ChatRequest (QueryPrompt ''Q2''), HttpGet (PyStr ''qABA''),
           HttpGet (PyStr ''https://www.findaphd.com/phds/A''),
           ChatRequest (ExtractPrompt
             ''https://www.findaphd.com/phds/Ahttps://www.findaphd.com/phds/A''),
           Accepted ''https://www.findaphd.com/phds/A'',
           CsvWrite ''phd_listings.csv'' [''title'', ''url'']
             [PyDict [(''title'', PyStr ''A''),
                      (''url'', PyStr ''https://www.findaphd.com/phds/A'')]]]\<rparr>)"
    by code_simp
  from record_cap_respected[OF run one] run show ?thesis
    by simp
qed

theorem record_cap_zero_counterexample:
  "fst (main_agent demo_env ''Q1'' (Some 0) demo_start) =
     Inr (Some [PyDict [(''title'', PyStr ''A''),
                        (''url'', PyStr ''https://www.findaphd.com/phds/A'')],
                PyDict [(''title'', PyStr ''B''), (''funding'', PyNone),
                        (''url'', PyStr ''https://www.findaphd.com/phds/B'')]])
   \<and> \<not> int (length [PyDict [(''title'', PyStr ''A''),
                        (''url'', PyStr ''https://www.findaphd.com/phds/A'')],
                PyDict [(''title'', PyStr ''B''), (''funding'', PyNone),
                        (''url'', PyStr ''https://www.findaphd.com/phds/B'')]]) \<le> 0"
proof -
  have "fst (main_agent demo_env ''Q1'' (Some 0) demo_start) =
     Inr (Some [PyDict [(''title'', PyStr ''A''),
                        (''url'', PyStr ''https://www.findaphd.com/phds/A'')],
                PyDict [(''title'', PyStr ''B''), (''funding'', PyNone),
                        (''url'', PyStr ''https://www.findaphd.com/phds/B'')]])"
    by code_simp
  then show ?thesis by simp
qed

section \<open>Query generation that does not parse\<close>

text \<open>
  C6. When the response of the query generator does not parse as JSON, \<open>main_agent\<close>
  returns at once (the bare \<open>return\<close>): the only thing the run has done is the one model
  request, so no search page was fetched, no record accepted and no CSV file written.
\<close>

theorem unparsable_queries_abort:
  assumes "chat_completion env (QueryPrompt user_prompt) s = (response_text, s1)"
    and "parse_queries (json_loads env) response_text = None"
  shows "main_agent env user_prompt max_projects s = (Inr None, s1)
       \<and> trace s1 = trace s @ [ChatRequest (QueryPrompt user_prompt)]
       \<and> filter (\<lambda>e. \<not> is_chat e) (trace s1) = filter (\<lambda>e. \<not> is_chat e) (trace s)"
proof -
  from assms have "generate_search_queries env user_prompt s = (Inl JSONDecodeError, s1)"
    by (simp add: generate_search_queries_def)
  then have "main_agent env user_prompt max_projects s = (Inr None, s1)"
    by (rule main_agent_parse_failure)
  moreover have "trace s1 = trace s @ [ChatRequest (QueryPrompt user_prompt)]"
    using assms(1) by (rule chat_completion_trace)
  ultimately show ?thesis by simp
qed

theorem unparsable_queries_abort_witness:
  "chat_completion demo_env (QueryPrompt ''not json'') demo_start =
     (''not json'', \<lparr>world = (), trace = [ChatRequest (QueryPrompt ''not json'')]\<rparr>)
   \<and> parse_queries (json_loads demo_env) ''not json'' = None
   \<and> main_agent demo_env ''not json'' (Some 5) demo_start =
     (Inr None, \<lparr>world = (), trace = [ChatRequest (QueryPrompt ''not json'')]\<rparr>)"
proof -
  have chat: "chat_completion demo_env (QueryPrompt ''not json'') demo_start =
     (''not json'', \<lparr>world = (), trace = [ChatRequest (QueryPrompt ''not json'')]\<rparr>)"
    by code_simp
  have bad: "parse_queries (json_loads demo_env) ''not json'' = None"
    by code_simp
  from unparsable_queries_abort[OF chat bad, of "Some 5"] chat bad show ?thesis
    by simp
qed

section \<open>A cap of zero\<close>

lemma cap_zero_never_reached: "\<not> cap_reached (Some 0) ps"
  by (simp add: cap_reached_def)

lemma cap_none_never_reached: "\<not> cap_reached None ps"
  by (simp add: cap_reached_def)

lemma process_links_cap_zero:
  "process_links env (Some 0) links ps s = process_links env None links ps s"
  by (induction links arbitrary: ps s)
    (simp_all add: cap_zero_never_reached cap_none_never_reached split: prod.splits sum.splits)

lemma process_queries_cap_zero:
  "process_queries env (Some 0) qs ps s = process_queries env None qs ps s"
  by (induction qs arbitrary: ps s)
    (simp_all add: cap_zero_never_reached cap_none_never_reached process_links_cap_zero
      split: prod.splits sum.splits)

text \<open>
  C9. With a cap of 0 the cap check never fires and the run is the run without a cap.
  Each link of each query gets its loop body: the loops unfold without the check.
  For a cap \<open>n \<ge> 1\<close> the check is the comparison with the number of records.
\<close>

theorem zero_cap_is_no_cap:
  "main_agent env user_prompt (Some 0) s = main_agent env user_prompt None s
   \<and> (\<forall>ps. \<not> cap_reached (Some 0) ps)
   \<and> (\<forall>url urls ps. process_links env (Some 0) (url # urls) ps s =
         (case link_step env url ps s of
            (Inl e, s1) \<Rightarrow> (Inl e, s1)
          | (Inr projects, s1) \<Rightarrow> process_links env (Some 0) urls projects s1))
   \<and> (\<forall>q qs ps. process_queries env (Some 0) (q # qs) ps s =
         (case get_project_links env q s of
            (links, s1) \<Rightarrow>
              if links = [] then process_queries env (Some 0) qs ps s1
              else (case process_links env (Some 0) links ps s1 of
                      (Inl e, s2) \<Rightarrow> (Inl e, s2)
                    | (Inr projects, s2) \<Rightarrow> process_queries env (Some 0) qs projects s2)))
   \<and> (\<forall>n ps. 1 \<le> n \<longrightarrow> cap_reached (Some n) ps = (n \<le> int (length ps)))"
proof (intro conjI allI impI)
  show "main_agent env user_prompt (Some 0) s = main_agent env user_prompt None s"
    unfolding main_agent_def process_queries_cap_zero by (rule refl)
next
  fix n :: int and ps :: "pyval list"
  assume "1 \<le> n"
  then show "cap_reached (Some n) ps = (n \<le> int (length ps))"
    by (auto simp: cap_reached_def)
qed (simp_all add: cap_zero_never_reached split: prod.splits sum.splits)

theorem zero_cap_is_no_cap_witness:
  "main_agent demo_env ''Q2'' (Some 0) demo_start = main_agent demo_env ''Q2'' None demo_start
   \<and> map_sum id (map_option length) (fst (main_agent demo_env ''Q2'' (Some 0) demo_start))
       = Inr (Some 3)
   \<and> cap_reached (Some 1) [PyNone] = ((1::int) \<le> int (length [PyNone]))"
proof -
  have "map_sum id (map_option length) (fst (main_agent demo_env ''Q2'' None demo_start))
       = Inr (Some 3)"
    by code_simp
  with zero_cap_is_no_cap[of demo_env "''Q2''" demo_start] show ?thesis
    by simp
qed

section \<open>What a run writes\<close>

lemma request_not_csv: "is_request e \<Longrightarrow> \<not> is_csv e"
  by (cases e) auto

lemma link_step_records:
  assumes "link_step env url ps s = (r, s1)"
  shows "\<exists>evs. trace s1 = trace s @ evs \<and> filter is_csv evs = []
           \<and> (\<forall>ps'. r = Inr ps' \<longrightarrow>
                 (\<exists>new. ps' = ps @ new \<and> (\<forall>x\<in>set new. ''url'' \<in> set (dict_keys x))))"
proof -
  from link_step_trace[OF assms] obtain reqs where reqs: "\<forall>e\<in>set reqs. is_request e"
    and shape: "(r = Inr ps \<and> trace s1 = trace s @ reqs) \<or>
       (\<exists>row. r = Inr (ps @ [row]) \<and> ''url'' \<in> set (dict_keys row)
            \<and> trace s1 = trace s @ reqs @ [Accepted url]) \<or>
       (\<exists>e. r = Inl e \<and> trace s1 = trace s @ reqs)"
    by blast
  have no_csv: "filter is_csv reqs = []"
    using reqs by (auto simp: filter_empty_conv request_not_csv)
  from shape show ?thesis
  proof (elim disjE exE conjE)
    assume "r = Inr ps" "trace s1 = trace s @ reqs"
    with no_csv show ?thesis by auto
  next
    fix row
    assume "r = Inr (ps @ [row])" "''url'' \<in> set (dict_keys row)"
      "trace s1 = trace s @ reqs @ [Accepted url]"
    moreover have "filter is_csv (reqs @ [Accepted url]) = []" using no_csv by simp
    ultimately show ?thesis by auto
  next
    fix e
    assume "r = Inl e" "trace s1 = trace s @ reqs"
    with no_csv show ?thesis by auto
  qed
qed

lemma process_links_records:
  assumes "process_links env cap links ps s = (r, s')"
  shows "\<exists>evs. trace s' = trace s @ evs \<and> filter is_csv evs = []
           \<and> (\<forall>ps'. r = Inr ps' \<longrightarrow>
                 (\<exists>new. ps' = ps @ new \<and> (\<forall>x\<in>set new. ''url'' \<in> set (dict_keys x))))"
  using assms
proof (induction links arbitrary: ps s)
  case Nil
  then show ?case by auto
next
  case (Cons url urls)
  show ?case
  proof (cases "cap_reached cap ps")
    case True
    with Cons.prems show ?thesis by auto
  next
    case False
    obtain r1 s1 where step: "link_step env url ps s = (r1, s1)"
      by (cases "link_step env url ps s")
    from link_step_records[OF step]
    obtain evs1 where evs1: "trace s1 = trace s @ evs1" "filter is_csv evs1 = []"
      "\<forall>ps'. r1 = Inr ps' \<longrightarrow>
          (\<exists>new. ps' = ps @ new \<and> (\<forall>x\<in>set new. ''url'' \<in> set (dict_keys x)))"
      by blast
    show ?thesis
    proof (cases r1)
      case (Inl e)
      with Cons.prems False step have "r = Inl e" "s' = s1" by simp_all
      with evs1 show ?thesis by auto
    next
      case (Inr ps1)
      with Cons.prems False step have run: "process_links env cap urls ps1 s1 = (r, s')"
        by simp
      from evs1(3) Inr obtain new1 where new1: "ps1 = ps @ new1"
        "\<forall>x\<in>set new1. ''url'' \<in> set (dict_keys x)" by blast
      from Cons.IH[OF run]
      obtain evs2 where evs2: "trace s' = trace s1 @ evs2" "filter is_csv evs2 = []"
        "\<forall>ps'. r = Inr ps' \<longrightarrow>
            (\<exists>new. ps' = ps1 @ new \<and> (\<forall>x\<in>set new. ''url'' \<in> set (dict_keys x)))"
        by blast
      have "trace s' = trace s @ (evs1 @ evs2)" using evs1(1) evs2(1) by simp
      moreover have "filter is_csv (evs1 @ evs2) = []" using evs1(2) evs2(2) by simp
      moreover have "\<forall>ps'. r = Inr ps' \<longrightarrow>
            (\<exists>new. ps' = ps @ new \<and> (\<forall>x\<in>set new. ''url'' \<in> set (dict_keys x)))"
      proof (intro allI impI)
        fix ps' assume "r = Inr ps'"
        with evs2(3) obtain new2 where "ps' = ps1 @ new2"
          "\<forall>x\<in>set new2. ''url'' \<in> set (dict_keys x)" by blast
        with new1 have "ps' = ps @ (new1 @ new2)"
          "\<forall>x\<in>set (new1 @ new2). ''url'' \<in> set (dict_keys x)" by auto
        then show "\<exists>new. ps' = ps @ new \<and> (\<forall>x\<in>set new. ''url'' \<in> set (dict_keys x))"
          by blast
      qed
      ultimately show ?thesis by blast
    qed
  qed
qed

lemma process_queries_records:
  assumes "process_queries env cap qs ps s = (r, s')"
  shows "\<exists>evs. trace s' = trace s @ evs \<and> filter is_csv evs = []
           \<and> (\<forall>ps'. r = Inr ps' \<longrightarrow>
                 (\<exists>new. ps' = ps @ new \<and> (\<forall>x\<in>set new. ''url'' \<in> set (dict_keys x))))"
  using assms
proof (induction qs arbitrary: ps s)
  case Nil
  then show ?case by auto
next
  case (Cons q qs)
  obtain links s1 where gl: "get_project_links env q s = (links, s1)"
    by (cases "get_project_links env q s")
  note t1 = get_project_links_trace[OF gl]
  show ?case
  proof (cases "links = []")
    case True
    with Cons.prems gl have run: "process_queries env cap qs ps s1 = (r, s')" by simp
    from Cons.IH[OF run]
    obtain evs where evs: "trace s' = trace s1 @ evs" "filter is_csv evs = []"
      "\<forall>ps'. r = Inr ps' \<longrightarrow>
          (\<exists>new. ps' = ps @ new \<and> (\<forall>x\<in>set new. ''url'' \<in> set (dict_keys x)))"
      by blast
    have "trace s' = trace s @ (HttpGet q # evs)" using evs(1) t1 by simp
    moreover have "filter is_csv (HttpGet q # evs) = []" using evs(2) by simp
    ultimately show ?thesis using evs(3) by blast
  next
    case False
    note some_links = False
    obtain r2 s2 where pl: "process_links env cap links ps s1 = (r2, s2)"
      by (cases "process_links env cap links ps s1")
    from process_links_records[OF pl]
    obtain evs1 where evs1: "trace s2 = trace s1 @ evs1" "filter is_csv evs1 = []"
      "\<forall>ps'. r2 = Inr ps' \<longrightarrow>
          (\<exists>new. ps' = ps @ new \<and> (\<forall>x\<in>set new. ''url'' \<in> set (dict_keys x)))"
      by blast
    have stop: ?thesis if "r = r2" "s' = s2"
    proof -
      have "trace s' = trace s @ (HttpGet q # evs1)" using evs1(1) t1 that by simp
      moreover have "filter is_csv (HttpGet q # evs1) = []" using evs1(2) by simp
      ultimately show ?thesis using evs1(3) that(1) by blast
    qed
    show ?thesis
    proof (cases r2)
      case (Inl e)
      with Cons.prems gl some_links pl have "r = r2" "s' = s2" by simp_all
      then show ?thesis by (rule stop)
    next
      case (Inr ps2)
      show ?thesis
      proof (cases "cap_reached cap ps2")
        case True
        with Cons.prems gl some_links pl Inr have "r = r2" "s' = s2" by simp_all
        then show ?thesis by (rule stop)
      next
        case False
        with Cons.prems gl some_links pl Inr
        have run: "process_queries env cap qs ps2 s2 = (r, s')" by simp
        from evs1(3) Inr obtain new1 where new1: "ps2 = ps @ new1"
          "\<forall>x\<in>set new1. ''url'' \<in> set (dict_keys x)" by blast
        from Cons.IH[OF run]
        obtain evs2 where evs2: "trace s' = trace s2 @ evs2" "filter is_csv evs2 = []"
          "\<forall>ps'. r = Inr ps' \<longrightarrow>
              (\<exists>new. ps' = ps2 @ new \<and> (\<forall>x\<in>set new. ''url'' \<in> set (dict_keys x)))"
          by blast
        have "trace s' = trace s @ (HttpGet q # evs1 @ evs2)"
          using evs1(1) evs2(1) t1 by simp
        moreover have "filter is_csv (HttpGet q # evs1 @ evs2) = []"
          using evs1(2) evs2(2) by simp
        moreover have "\<forall>ps'. r = Inr ps' \<longrightarrow>
              (\<exists>new. ps' = ps @ new \<and> (\<forall>x\<in>set new. ''url'' \<in> set (dict_keys x)))"
        proof (intro allI impI)
          fix ps' assume "r = Inr ps'"
          with evs2(3) obtain new2 where "ps' = ps2 @ new2"
            "\<forall>x\<in>set new2. ''url'' \<in> set (dict_keys x)" by blast
          with new1 have "ps' = ps @ (new1 @ new2)"
            "\<forall>x\<in>set (new1 @ new2). ''url'' \<in> set (dict_keys x)" by auto
          then show "\<exists>new. ps' = ps @ new \<and> (\<forall>x\<in>set new. ''url'' \<in> set (dict_keys x))"
            by blast
        qed
        ultimately show ?thesis by blast
      qed
    qed
  qed
qed

lemma main_agent_writes:
  assumes "main_agent env user_prompt max_projects s = (r, s')"
  shows "filter is_csv (trace s') = filter is_csv (trace s) @
           (case r of
              Inr (Some ps) \<Rightarrow>
                if ps \<noteq> [] then [CsvWrite csv_file (dataframe_columns ps) ps] else []
            | _ \<Rightarrow> [])
       \<and> (\<forall>ps. r = Inr (Some ps) \<longrightarrow> (\<forall>x\<in>set ps. ''url'' \<in> set (dict_keys x)))"
proof -
  obtain g s1 where gen: "generate_search_queries env user_prompt s = (g, s1)"
    by (cases "generate_search_queries env user_prompt s")
  note t1 = generate_search_queries_trace[OF gen]
  have early: ?thesis if "s' = s1" "\<forall>ps. r \<noteq> Inr (Some ps)"
  proof -
    have "filter is_csv (trace s') = filter is_csv (trace s)" using t1 that by simp
    moreover have "(case r of
              Inr (Some ps) \<Rightarrow>
                if ps \<noteq> [] then [CsvWrite csv_file (dataframe_columns ps) ps] else []
            | _ \<Rightarrow> []) = []"
      using that(2) by (auto split: sum.splits option.splits)
    ultimately show ?thesis using that(2) by simp
  qed
  show ?thesis
  proof (cases g)
    case (Inl e)
    show ?thesis
    proof (cases "e = JSONDecodeError")
      case True
      with gen Inl assms(1) have "r = Inr None" "s' = s1"
        by (simp_all add: main_agent_parse_failure)
      then show ?thesis by (intro early) simp_all
    next
      case False
      with gen Inl assms(1) have "r = Inl e" "s' = s1"
        by (simp_all add: main_agent_generate_error)
      then show ?thesis by (intro early) simp_all
    qed
  next
    case (Inr qv)
    show ?thesis
    proof (cases "py_iter qv")
      case (Inl e)
      with gen Inr assms(1) have "r = Inl e" "s' = s1"
        by (simp_all add: main_agent_iter_error)
      then show ?thesis by (intro early) simp_all
    next
      case iter: (Inr qs)
      obtain r2 s2 where pq: "process_queries env max_projects qs [] s1 = (r2, s2)"
        by (cases "process_queries env max_projects qs [] s1")
      from process_queries_records[OF pq]
      obtain evs where evs: "trace s2 = trace s1 @ evs" "filter is_csv evs = []"
        "\<forall>ps'. r2 = Inr ps' \<longrightarrow> (\<forall>x\<in>set ps'. ''url'' \<in> set (dict_keys x))"
        by auto
      have csv2: "filter is_csv (trace s2) = filter is_csv (trace s)"
        using evs(1,2) t1 by simp
      show ?thesis
      proof (cases r2)
        case (Inl e)
        with gen Inr iter pq assms(1) have "r = Inl e" "s' = s2"
          by (simp_all add: main_agent_abort)
        with csv2 show ?thesis by simp
      next
        case run: (Inr ps)
        from main_agent_done[OF gen[unfolded Inr] iter pq[unfolded run]] assms(1)
        have r: "r = Inr (Some ps)"
          and s': "s' = (if ps \<noteq> []
              then s2\<lparr>trace := trace s2 @ [CsvWrite csv_file (dataframe_columns ps) ps]\<rparr>
              else s2)"
          by simp_all
        from evs(3) run have "\<forall>x\<in>set ps. ''url'' \<in> set (dict_keys x)" by simp
        with r s' csv2 show ?thesis by simp
      qed
    qed
  qed
qed

lemma dataframe_columns_set:
  "set (dataframe_columns ps) = (\<Union>x\<in>set ps. set (dict_keys x))"
  by (simp add: dataframe_columns_def first_seen_set)

lemma dataframe_columns_same_keys:
  assumes "ps \<noteq> []" and "\<forall>x\<in>set ps. set (dict_keys x) = set (dict_keys (hd ps))"
  shows "set (dataframe_columns ps) = set (dict_keys (hd ps))"
proof -
  from assms(1) have "hd ps \<in> set ps" by simp
  with assms(2) show ?thesis
    unfolding dataframe_columns_set by blast
qed

lemma dataframe_columns_has:
  "x \<in> set ps \<Longrightarrow> k \<in> set (dict_keys x) \<Longrightarrow> k \<in> set (dataframe_columns ps)"
  by (auto simp: dataframe_columns_set)

lemma dataframe_columns_first:
  assumes "ps \<noteq> []"
  shows "set (dict_keys (hd ps)) \<subseteq> set (dataframe_columns ps)"
proof -
  from assms have "hd ps \<in> set ps" by simp
  then show ?thesis unfolding dataframe_columns_set by (rule UN_upper)
qed

lemma dataframe_columns_url:
  assumes "\<forall>x\<in>set ps. k \<in> set (dict_keys x)" and "ps \<noteq> []"
  shows "k \<in> set (dataframe_columns ps)"
proof -
  from assms(2) have "hd ps \<in> set ps" by simp
  moreover from this assms(1) have "k \<in> set (dict_keys (hd ps))" by simp
  ultimately show ?thesis by (rule dataframe_columns_has)
qed

lemma dataframe_columns_distinct: "distinct (dataframe_columns ps)"
  by (simp add: dataframe_columns_def first_seen_distinct)

lemma main_agent_records:
  assumes "main_agent env user_prompt max_projects s = (Inr (Some ps), s')"
  shows "\<forall>x\<in>set ps. ''url'' \<in> set (dict_keys x)"
proof -
  from main_agent_writes[OF assms]
  have "\<forall>qs. Inr (Some ps) = (Inr (Some qs) :: py_error + pyval list option) \<longrightarrow>
      (\<forall>x\<in>set qs. ''url'' \<in> set (dict_keys x))"
    by (rule conjunct2)
  then have "Inr (Some ps) = (Inr (Some ps) :: py_error + pyval list option) \<longrightarrow>
      (\<forall>x\<in>set ps. ''url'' \<in> set (dict_keys x))"
    by (rule spec)
  then show ?thesis by simp
qed

text \<open>
  C7, with the columns as the data frame has them. A run writes the CSV file exactly when it reaches its end
  with at least one accepted record; a run ended by the parse failure of the query
  generator or by an exception writes nothing. Every accepted record carries the key
  \<open>url\<close>. The columns of the file are the keys of all accepted records, each once: they
  contain \<open>url\<close> and the keys of the first record, and they are the keys of the first
  record when every record has the same keys.
\<close>

theorem csv_written_iff_accepted:
  assumes "main_agent env user_prompt max_projects s = (r, s')"
  shows "filter is_csv (trace s') = filter is_csv (trace s) @
           (case r of
              Inr (Some ps) \<Rightarrow>
                if ps \<noteq> [] then [CsvWrite csv_file (dataframe_columns ps) ps] else []
            | _ \<Rightarrow> [])
       \<and> (\<forall>ps. r = Inr (Some ps) \<longrightarrow>
             (\<forall>x\<in>set ps. ''url'' \<in> set (dict_keys x))
           \<and> distinct (dataframe_columns ps)
           \<and> set (dataframe_columns ps) = (\<Union>x\<in>set ps. set (dict_keys x))
           \<and> (ps \<noteq> [] \<longrightarrow> ''url'' \<in> set (dataframe_columns ps)
                         \<and> set (dict_keys (hd ps)) \<subseteq> set (dataframe_columns ps))
           \<and> (ps \<noteq> [] \<and> (\<forall>x\<in>set ps. set (dict_keys x) = set (dict_keys (hd ps)))
                \<longrightarrow> set (dataframe_columns ps) = set (dict_keys (hd ps))))"
proof (intro conjI allI impI)
  show "filter is_csv (trace s') = filter is_csv (trace s) @
           (case r of
              Inr (Some ps) \<Rightarrow>
                if ps \<noteq> [] then [CsvWrite csv_file (dataframe_columns ps) ps] else []
            | _ \<Rightarrow> [])"
    using main_agent_writes[OF assms] by (rule conjunct1)
next
  fix ps assume "r = Inr (Some ps)"
  with assms have "main_agent env user_prompt max_projects s = (Inr (Some ps), s')" by simp
  then show "\<forall>x\<in>set ps. ''url'' \<in> set (dict_keys x)" by (rule main_agent_records)
next
  fix ps show "distinct (dataframe_columns ps)" by (rule dataframe_columns_distinct)
next
  fix ps show "set (dataframe_columns ps) = (\<Union>x\<in>set ps. set (dict_keys x))"
    by (rule dataframe_columns_set)
next
  fix ps assume "r = Inr (Some ps)" and ne: "ps \<noteq> []"
  with assms have "main_agent env user_prompt max_projects s = (Inr (Some ps), s')" by simp
  then have "\<forall>x\<in>set ps. ''url'' \<in> set (dict_keys x)" by (rule main_agent_records)
  then show "''url'' \<in> set (dataframe_columns ps)" using ne by (rule dataframe_columns_url)
next
  fix ps :: "pyval list" assume "ps \<noteq> []"
  then show "set (dict_keys (hd ps)) \<subseteq> set (dataframe_columns ps)"
    by (rule dataframe_columns_first)
next
  fix ps :: "pyval list"
  assume same: "ps \<noteq> [] \<and> (\<forall>x\<in>set ps. set (dict_keys x) = set (dict_keys (hd ps)))"
  from same[THEN conjunct1] same[THEN conjunct2]
  show "set (dataframe_columns ps) = set (dict_keys (hd ps))"
    by (rule dataframe_columns_same_keys)
qed

theorem csv_written_iff_accepted_witness:
  "main_agent demo_env ''Q3'' None demo_start =
     (Inr (Some [PyDict [(''title'', PyStr ''A''),
                         (''url'', PyStr ''https://www.findaphd.com/phds/A'')]]),
      \<lparr>world = (),
       trace =
         [ChatRequest (QueryPrompt ''Q3''), HttpGet (PyStr ''qEA''),
          HttpGet (PyStr ''https://www.findaphd.com/phds/E''),
          ChatRequest (ExtractPrompt
            ''https://www.findaphd.com/phds/Ehttps://www.findaphd.com/phds/E''),
          HttpGet (PyStr ''https://www.findaphd.com/phds/A''),
          ChatRequest (ExtractPrompt
            ''https://www.findaphd.com/phds/Ahttps://www.findaphd.com/phds/A''),
          Accepted ''https://www.findaphd.com/phds/A'',
          CsvWrite ''phd_listings.csv'' [''title'', ''url'']
            [PyDict [(''title'', PyStr ''A''),
                     (''url'', PyStr ''https://www.findaphd.com/phds/A'')]]]\<rparr>)
   \<and> filter is_csv (trace (snd (main_agent demo_env ''Q3'' None demo_start))) =
       [CsvWrite ''phd_listings.csv'' [''title'', ''url'']
          [PyDict [(''title'', PyStr ''A''),
                   (''url'', PyStr ''https://www.findaphd.com/phds/A'')]]]"
proof -
  have run: "main_agent demo_env ''Q3'' None demo_start =
     (Inr (Some [PyDict [(''title'', PyStr ''A''),
                         (''url'', PyStr ''https://www.findaphd.com/phds/A'')]]),
      \<lparr>world = (),
       trace =
         [ChatRequest (QueryPrompt ''Q3''), HttpGet (PyStr ''qEA''),
          HttpGet (PyStr ''https://www.findaphd.com/phds/E''),
          ChatRequest (ExtractPrompt
            ''https://www.findaphd.com/phds/Ehttps://www.findaphd.com/phds/E''),
          HttpGet (PyStr ''https://www.findaphd.com/phds/A''),
          ChatRequest (ExtractPrompt
            ''https://www.findaphd.com/phds/Ahttps://www.findaphd.com/phds/A''),
          Accepted ''https://www.findaphd.com/phds/A'',
          CsvWrite ''phd_listings.csv'' [''title'', ''url'']
            [PyDict [(''title'', PyStr ''A''),
                     (''url'', PyStr ''https://www.findaphd.com/phds/A'')]]]\<rparr>)"
    by code_simp
  have "filter is_csv (trace (snd (main_agent demo_env ''Q3'' None demo_start))) =
      filter is_csv (trace demo_start) @
        [CsvWrite csv_file
           (dataframe_columns [PyDict [(''title'', PyStr ''A''),
              (''url'', PyStr ''https://www.findaphd.com/phds/A'')]])
           [PyDict [(''title'', PyStr ''A''),
              (''url'', PyStr ''https://www.findaphd.com/phds/A'')]]]"
    using csv_written_iff_accepted[OF run, THEN conjunct1] run by simp
  moreover have "dataframe_columns [PyDict [(''title'', PyStr ''A''),
      (''url'', PyStr ''https://www.findaphd.com/phds/A'')]] = [''title'', ''url'']"
    by code_simp
  ultimately show ?thesis using run
    by (simp add: csv_file_def demo_start_def)
qed

theorem csv_columns_counterexample:
  "filter is_csv (trace (snd (main_agent demo_env ''Q1'' None demo_start))) =
     [CsvWrite ''phd_listings.csv'' [''title'', ''url'', ''funding'']
        [PyDict [(''title'', PyStr ''A''),
                 (''url'', PyStr ''https://www.findaphd.com/phds/A'')],
         PyDict [(''title'', PyStr ''B''), (''funding'', PyNone),
                 (''url'', PyStr ''https://www.findaphd.com/phds/B'')]]]
   \<and> set [''title'', ''url'', ''funding''] \<noteq>
       set (dict_keys (PyDict [(''title'', PyStr ''A''),
                               (''url'', PyStr ''https://www.findaphd.com/phds/A'')]))
         \<union> {''url''}"
proof -
  have "filter is_csv (trace (snd (main_agent demo_env ''Q1'' None demo_start))) =
     [CsvWrite ''phd_listings.csv'' [''title'', ''url'', ''funding'']
        [PyDict [(''title'', PyStr ''A''),
                 (''url'', PyStr ''https://www.findaphd.com/phds/A'')],
         PyDict [(''title'', PyStr ''B''), (''funding'', PyNone),
                 (''url'', PyStr ''https://www.findaphd.com/phds/B'')]]]"
    by code_simp
  moreover have "set [''title'', ''url'', ''funding''] \<noteq>
       set (dict_keys (PyDict [(''title'', PyStr ''A''),
                               (''url'', PyStr ''https://www.findaphd.com/phds/A'')]))
         \<union> {''url''}"
  proof
    assume same: "set [''title'', ''url'', ''funding''] =
       set (dict_keys (PyDict [(''title'', PyStr ''A''),
                               (''url'', PyStr ''https://www.findaphd.com/phds/A'')]))
         \<union> {''url''}"
    have "''funding'' \<in> set [''title'', ''url'', ''funding'']" by simp
    then have "''funding'' \<in> set (dict_keys (PyDict [(''title'', PyStr ''A''),
                               (''url'', PyStr ''https://www.findaphd.com/phds/A'')]))
         \<union> {''url''}"
      by (simp only: same)
    then show False by simp
  qed
  ultimately show ?thesis by (rule conjI)
qed

section \<open>A response that is JSON but not an object\<close>

lemma py_setitem_non_dict: "\<not> is_dict v \<Longrightarrow> py_setitem v k u = Inl TypeError"
  by (cases v) simp_all

lemma extract_project_info_parsed:
  assumes "50 \<le> length blob"
    and "chat_completion env (ExtractPrompt (take 4000 blob)) s = (response_text, s1)"
    and "json_loads env response_text = Some v"
  shows "extract_project_info env blob url s = (v, s1)"
proof -
  from assms(1) have "\<not> (blob = [] \<or> length blob < 50)" by auto
  with assms(2,3) show ?thesis by (simp add: extract_project_info_def)
qed

lemma link_step_type_error:
  assumes "get_clean_text env url s = (blob, s1)" and "blob \<noteq> []"
    and "extract_project_info env blob url s1 = (v, s2)"
    and "py_truthy v" and "\<not> is_dict v"
  shows "link_step env url ps s = (Inl TypeError, s2)"
  using assms by (simp add: link_step_def py_setitem_non_dict)

lemma link_step_falsy_skipped:
  assumes "get_clean_text env url s = (blob, s1)" and "blob \<noteq> []"
    and "extract_project_info env blob url s1 = (v, s2)"
    and "\<not> py_truthy v"
  shows "link_step env url ps s = (Inr ps, s2)"
  using assms by (simp add: link_step_def)

lemma process_links_append:
  assumes "process_links env cap pre ps s = (Inr ps1, s1)" and "\<not> cap_reached cap ps1"
  shows "process_links env cap (pre @ rest) ps s = process_links env cap rest ps1 s1"
  using assms
proof (induction pre arbitrary: ps s)
  case Nil
  then show ?case by simp
next
  case (Cons url urls)
  have open_cap: "\<not> cap_reached cap ps"
  proof
    assume "cap_reached cap ps"
    with Cons.prems(1) have "ps1 = ps" by simp
    with \<open>cap_reached cap ps\<close> Cons.prems(2) show False by simp
  qed
  obtain r1 sa where step: "link_step env url ps s = (r1, sa)"
    by (cases "link_step env url ps s")
  with Cons.prems(1) open_cap obtain ps' where r1: "r1 = Inr ps'"
    and run: "process_links env cap urls ps' sa = (Inr ps1, s1)"
    by (cases r1) simp_all
  from run Cons.prems(2)
  have "process_links env cap (urls @ rest) ps' sa = process_links env cap rest ps1 s1"
    by (rule Cons.IH)
  with step open_cap r1 show ?case by simp
qed

lemma process_queries_append:
  assumes "process_queries env cap pre ps s = (Inr ps1, s1)" and "\<not> cap_reached cap ps1"
  shows "process_queries env cap (pre @ rest) ps s = process_queries env cap rest ps1 s1"
  using assms
proof (induction pre arbitrary: ps s)
  case Nil
  then show ?case by simp
next
  case (Cons q qs)
  obtain links sa where gl: "get_project_links env q s = (links, sa)"
    by (cases "get_project_links env q s")
  show ?case
  proof (cases "links = []")
    case True
    with Cons.prems(1) gl have run: "process_queries env cap qs ps sa = (Inr ps1, s1)"
      by simp
    from run Cons.prems(2)
    have "process_queries env cap (qs @ rest) ps sa = process_queries env cap rest ps1 s1"
      by (rule Cons.IH)
    with gl True show ?thesis by simp
  next
    case False
    note some_links = False
    obtain r2 sb where pl: "process_links env cap links ps sa = (r2, sb)"
      by (cases "process_links env cap links ps sa")
    with Cons.prems(1) gl some_links obtain ps2 where r2: "r2 = Inr ps2"
      by (cases r2) simp_all
    have open_cap: "\<not> cap_reached cap ps2"
    proof
      assume "cap_reached cap ps2"
      with Cons.prems(1) gl some_links pl r2 have "ps1 = ps2" by simp
      with \<open>cap_reached cap ps2\<close> Cons.prems(2) show False by simp
    qed
    with Cons.prems(1) gl some_links pl r2
    have run: "process_queries env cap qs ps2 sb = (Inr ps1, s1)" by simp
    from run Cons.prems(2)
    have "process_queries env cap (qs @ rest) ps2 sb = process_queries env cap rest ps1 s1"
      by (rule Cons.IH)
    with gl some_links pl r2 open_cap show ?thesis by simp
  qed
qed

text \<open>
  C10, for values that are true under truth value testing. Take a run that reaches a link \<open>url\<close> (the queries and
  links before it are processed without reaching the cap) whose page text has at least 50
  characters and whose model response parses to a value \<open>v\<close> that is not a dictionary and
  is true under Python's truth value testing. Then \<open>extract_project_info\<close> returns \<open>v\<close>,
  and \<open>main_agent\<close> ends with the \<open>TypeError\<close> of \<^verbatim>\<open>project_info['url'] = url\<close> right
  there: the remaining links and queries are not processed and no CSV file is written.
\<close>

theorem truthy_non_object_aborts:
  assumes gen: "generate_search_queries env user_prompt s = (Inr qv, s1)"
    and iter: "py_iter qv = Inr (qpre @ q # qrest)"
    and before_q: "process_queries env max_projects qpre [] s1 = (Inr ps1, s2)"
    and open_q: "\<not> cap_reached max_projects ps1"
    and links: "get_project_links env q s2 = (lpre @ url # lrest, s3)"
    and before_l: "process_links env max_projects lpre ps1 s3 = (Inr ps2, s4)"
    and open_l: "\<not> cap_reached max_projects ps2"
    and page: "get_clean_text env url s4 = (blob, s5)"
    and long: "50 \<le> length blob"
    and chat: "chat_completion env (ExtractPrompt (take 4000 blob)) s5 = (response_text, s6)"
    and parsed: "json_loads env response_text = Some v"
    and truthy: "py_truthy v"
    and non_object: "\<not> is_dict v"
  shows "extract_project_info env blob url s5 = (v, s6)
       \<and> main_agent env user_prompt max_projects s = (Inl TypeError, s6)
       \<and> filter is_csv (trace s6) = filter is_csv (trace s)"
proof -
  have ex: "extract_project_info env blob url s5 = (v, s6)"
    using long chat parsed by (rule extract_project_info_parsed)
  from long have "blob \<noteq> []" by auto
  with page have step: "link_step env url ps2 s4 = (Inl TypeError, s6)"
    using ex truthy non_object by (rule link_step_type_error)
  have "process_links env max_projects (lpre @ url # lrest) ps1 s3
      = process_links env max_projects (url # lrest) ps2 s4"
    using before_l open_l by (rule process_links_append)
  with step open_l
  have pl: "process_links env max_projects (lpre @ url # lrest) ps1 s3 = (Inl TypeError, s6)"
    by simp
  have "process_queries env max_projects (qpre @ q # qrest) [] s1
      = process_queries env max_projects (q # qrest) ps1 s2"
    using before_q open_q by (rule process_queries_append)
  with links pl
  have pq: "process_queries env max_projects (qpre @ q # qrest) [] s1 = (Inl TypeError, s6)"
    by simp
  from gen iter pq
  have run: "main_agent env user_prompt max_projects s = (Inl TypeError, s6)"
    by (rule main_agent_abort)
  from main_agent_writes[OF run] have "filter is_csv (trace s6) = filter is_csv (trace s)"
    by simp
  with ex run show ?thesis by simp
qed

theorem truthy_non_object_aborts_witness:
  "json_loads demo_env ''https://www.findaphd.com/phds/Lhttps://www.findaphd.com/phds/L''
     = Some (PyList [PyInt 1])
   \<and> py_truthy (PyList [PyInt 1]) \<and> \<not> is_dict (PyList [PyInt 1])
   \<and> main_agent demo_env ''Q4'' None demo_start =
      (Inl TypeError,
       \<lparr>world = (), trace =
         [ChatRequest (QueryPrompt ''Q4''), HttpGet (PyStr ''qAL''),
          HttpGet (PyStr ''https://www.findaphd.com/phds/A''),
          ChatRequest (ExtractPrompt
            ''https://www.findaphd.com/phds/Ahttps://www.findaphd.com/phds/A''),
          Accepted ''https://www.findaphd.com/phds/A'',
          HttpGet (PyStr ''https://www.findaphd.com/phds/L''),
          ChatRequest (ExtractPrompt
            ''https://www.findaphd.com/phds/Lhttps://www.findaphd.com/phds/L'')]\<rparr>)"
proof -
  let ?s1 = "\<lparr>world = (), trace =
         [ChatRequest (QueryPrompt ''Q4'')]\<rparr>"
  let ?s3 = "\<lparr>world = (), trace =
         [ChatRequest (QueryPrompt ''Q4''), HttpGet (PyStr ''qAL'')]\<rparr>"
  let ?s4 = "\<lparr>world = (), trace =
         [ChatRequest (QueryPrompt ''Q4''), HttpGet (PyStr ''qAL''),
          HttpGet (PyStr ''https://www.findaphd.com/phds/A''),
          ChatRequest (ExtractPrompt
            ''https://www.findaphd.com/phds/Ahttps://www.findaphd.com/phds/A''),
          Accepted ''https://www.findaphd.com/phds/A'']\<rparr>"
  let ?s5 = "\<lparr>world = (), trace =
         [ChatRequest (QueryPrompt ''Q4''), HttpGet (PyStr ''qAL''),
          HttpGet (PyStr ''https://www.findaphd.com/phds/A''),
          ChatRequest (ExtractPrompt
            ''https://www.findaphd.com/phds/Ahttps://www.findaphd.com/phds/A''),
          Accepted ''https://www.findaphd.com/phds/A'',
          HttpGet (PyStr ''https://www.findaphd.com/phds/L'')]\<rparr>"
  let ?s6 = "\<lparr>world = (), trace =
         [ChatRequest (QueryPrompt ''Q4''), HttpGet (PyStr ''qAL''),
          HttpGet (PyStr ''https://www.findaphd.com/phds/A''),
          ChatRequest (ExtractPrompt
            ''https://www.findaphd.com/phds/Ahttps://www.findaphd.com/phds/A''),
          Accepted ''https://www.findaphd.com/phds/A'',
          HttpGet (PyStr ''https://www.findaphd.com/phds/L''),
          ChatRequest (ExtractPrompt
            ''https://www.findaphd.com/phds/Lhttps://www.findaphd.com/phds/L'')]\<rparr>"
  let ?blob = "''https://www.findaphd.com/phds/Lhttps://www.findaphd.com/phds/L''"
  have gen: "generate_search_queries demo_env ''Q4'' demo_start =
      (Inr (PyList [PyStr ''qAL'', PyStr ''qA'']), ?s1)"
    by code_simp
  have iter: "py_iter (PyList [PyStr ''qAL'', PyStr ''qA'']) =
      Inr ([] @ PyStr ''qAL'' # [PyStr ''qA''])"
    by simp
  have before_q: "process_queries demo_env None [] [] ?s1 = (Inr [], ?s1)"
    by simp
  have open_q: "\<not> cap_reached None []"
    by (simp add: cap_reached_def)
  have links: "get_project_links demo_env (PyStr ''qAL'') ?s1 =
      ([''https://www.findaphd.com/phds/A''] @ ''https://www.findaphd.com/phds/L'' # [], ?s3)"
    by code_simp
  have before_l: "process_links demo_env None [''https://www.findaphd.com/phds/A''] [] ?s3 =
      (Inr [PyDict [(''title'', PyStr ''A''), (''url'', PyStr ''https://www.findaphd.com/phds/A'')]], ?s4)"
    by code_simp
  have open_l: "\<not> cap_reached None [PyDict [(''title'', PyStr ''A''), (''url'', PyStr ''https://www.findaphd.com/phds/A'')]]"
    by (simp add: cap_reached_def)
  have page: "get_clean_text demo_env ''https://www.findaphd.com/phds/L'' ?s4 = (?blob, ?s5)"
    by code_simp
  have long: "50 \<le> length ?blob"
    by simp
  have chat: "chat_completion demo_env (ExtractPrompt (take 4000 ?blob)) ?s5 = (?blob, ?s6)"
    by code_simp
  have parsed: "json_loads demo_env ?blob = Some (PyList [PyInt 1])"
    by code_simp
  have truthy: "py_truthy (PyList [PyInt 1])"
    by simp
  have non_object: "\<not> is_dict (PyList [PyInt 1])"
    by simp
  note run = truthy_non_object_aborts[OF gen iter before_q open_q links before_l open_l
      page long chat parsed truthy non_object]
  from run[THEN conjunct2, THEN conjunct1] parsed truthy non_object show ?thesis
    by (intro conjI)
qed

theorem falsy_non_object_counterexample:
  "json_loads demo_env ''https://www.findaphd.com/phds/Ehttps://www.findaphd.com/phds/E''
     = Some (PyList [])
   \<and> \<not> is_dict (PyList [])
   \<and> main_agent demo_env ''Q3'' (Some 5) demo_start =
     (Inr (Some [PyDict [(''title'', PyStr ''A''), (''url'', PyStr ''https://www.findaphd.com/phds/A'')]]),
      \<lparr>world = (),
       trace =
         [ChatRequest (QueryPrompt ''Q3''), HttpGet (PyStr ''qEA''),
          HttpGet (PyStr ''https://www.findaphd.com/phds/E''),
          ChatRequest (ExtractPrompt
            ''https://www.findaphd.com/phds/Ehttps://www.findaphd.com/phds/E''),
          HttpGet (PyStr ''https://www.findaphd.com/phds/A''),
          ChatRequest (ExtractPrompt
            ''https://www.findaphd.com/phds/Ahttps://www.findaphd.com/phds/A''),
          Accepted ''https://www.findaphd.com/phds/A'',
          CsvWrite ''phd_listings.csv'' [''title'', ''url'']
            [PyDict [(''title'', PyStr ''A''), (''url'', PyStr ''https://www.findaphd.com/phds/A'')]]]\<rparr>)"
  by code_simp

end
